theory Spec2Isabelle
  imports Main "HOL-Library.Sublist"
begin

section \<open>Annotation queues: the item table and the router procedures\<close>

text \<open>
  The development embeds the two tRPC routers
  \<^verbatim>\<open>web/src/server/api/routers/annotationQueues.ts\<close> (procedure \<^verbatim>\<open>next\<close>) and
  \<^verbatim>\<open>web/src/server/api/routers/annotationQueueItems.ts\<close> (procedures \<^verbatim>\<open>create\<close>,
  \<^verbatim>\<open>createMany\<close>, \<^verbatim>\<open>delete\<close>, \<^verbatim>\<open>complete\<close>).
  The table \<^verbatim>\<open>annotationQueueItem\<close> is a list of rows, in the order in which the
  store scans them; every store call (\<^verbatim>\<open>findFirst\<close>, \<^verbatim>\<open>update\<close>, ...) is one
  function on that list and returns the new list where it writes. A \<^verbatim>\<open>Date\<close> is
  its \<^verbatim>\<open>getTime()\<close>, an integer number of milliseconds. Calls to \<^verbatim>\<open>logger\<close> and
  \<^verbatim>\<open>auditLog\<close> write to other resources and are left out.
\<close>

subsection \<open>Data model\<close>

text \<open>
  Modelled from the spec: the enumeration \<^verbatim>\<open>AnnotationQueueObjectType\<close> is declared in
  \<^verbatim>\<open>@langfuse/shared\<close>; the routers name \<^verbatim>\<open>OBSERVATION\<close> only, the spec lists trace
  and session among the other kinds.
\<close>

datatype AnnotationQueueObjectType = TRACE | OBSERVATION | SESSION

datatype AnnotationQueueStatus = PENDING | COMPLETED

text \<open>
  A row of the item table, with the columns the routers read and write. The identifier is
  generated by the store on insertion; only equality, order and freshness of identifiers
  matter, so it is a natural number.
\<close>

record AnnotationQueueItem =
  item_id :: nat
  projectId :: string
  queueId :: string
  objectId :: string
  objectType :: AnnotationQueueObjectType
  status :: AnnotationQueueStatus
  editStartTime :: "int option"
  editStartByUserId :: "string option"
  annotatorUserId :: "string option"
  completedAt :: "int option"
  createdAt :: int

text \<open>
  What a procedure can throw. \<^verbatim>\<open>TRPCError\<close> (from \<^verbatim>\<open>@trpc/server\<close>) carries a code
  and a message; \<^verbatim>\<open>LangfuseNotFoundError\<close> (from \<^verbatim>\<open>@langfuse/shared\<close>) is another
  class, as is the error of a failed store call.
\<close>

datatype error =
    TRPCError string string
  | LangfuseNotFoundError string
  | PrismaError string

subsection \<open>Store calls\<close>

text \<open>\<^verbatim>\<open>findFirst({ where, orderBy: { key: "asc" } })\<close>: the rows matching \<^verbatim>\<open>where\<close>,
  ordered by the key alone, and the first of them. The sort is stable, so rows with equal
  keys stay in the order of the store: the query names no second key.\<close>

definition prisma_findFirst_orderBy ::
  "(AnnotationQueueItem \<Rightarrow> bool) \<Rightarrow> (AnnotationQueueItem \<Rightarrow> int) \<Rightarrow>
   AnnotationQueueItem list \<Rightarrow> AnnotationQueueItem option" where
  "prisma_findFirst_orderBy wh key rows =
     (case sort_key key (filter wh rows) of [] \<Rightarrow> None | r # _ \<Rightarrow> Some r)"

text \<open>\<^verbatim>\<open>update({ where: { id, projectId }, data })\<close>: writes \<^verbatim>\<open>data\<close> into the row with
  that identifier and project, and throws when there is none.\<close>

definition prisma_update ::
  "nat \<Rightarrow> string \<Rightarrow> (AnnotationQueueItem \<Rightarrow> AnnotationQueueItem) \<Rightarrow>
   AnnotationQueueItem list \<Rightarrow> error + AnnotationQueueItem list" where
  "prisma_update i pid data rows =
     (if \<exists>r \<in> set rows. item_id r = i \<and> projectId r = pid
      then Inr (map (\<lambda>r. if item_id r = i \<and> projectId r = pid then data r else r) rows)
      else Inl (PrismaError ''Record to update not found.''))"

subsection \<open>\<^verbatim>\<open>queueRouter.next\<close>\<close>

text \<open>The \<^verbatim>\<open>where\<close> clause of \<^verbatim>\<open>next\<close> (lines 332-340): the row is in the queue and the
  project, pending, and its \<^verbatim>\<open>editStartTime\<close> is null or \<^verbatim>\<open>lt\<close> the bound.\<close>

definition next_where :: "string \<Rightarrow> string \<Rightarrow> int \<Rightarrow> AnnotationQueueItem \<Rightarrow> bool" where
  "next_where qid pid fiveMinutesAgo r \<longleftrightarrow>
     queueId r = qid \<and> projectId r = pid \<and> status r = PENDING \<and>
     (editStartTime r = None \<or>
      (case editStartTime r of None \<Rightarrow> False | Some t \<Rightarrow> t < fiveMinutesAgo))"

text \<open>Lines 328-344: \<^verbatim>\<open>fiveMinutesAgo\<close> and the read.\<close>

definition next_find ::
  "AnnotationQueueItem list \<Rightarrow> string \<Rightarrow> string \<Rightarrow> int \<Rightarrow> AnnotationQueueItem option" where
  "next_find rows qid pid now =
     (let fiveMinutesAgo = now - 5 * 60 * 1000
      in prisma_findFirst_orderBy (next_where qid pid fiveMinutesAgo) createdAt rows)"

text \<open>Lines 348-357: the write of the lease.\<close>

definition next_claim ::
  "AnnotationQueueItem list \<Rightarrow> AnnotationQueueItem \<Rightarrow> string \<Rightarrow> string \<Rightarrow> int \<Rightarrow>
   error + AnnotationQueueItem list" where
  "next_claim rows item pid uid now =
     prisma_update (item_id item) pid
       (\<lambda>r. r\<lparr>editStartTime := Some now, editStartByUserId := Some uid\<rparr>) rows"

text \<open>Lines 359-377: an observation is returned with the trace it belongs to. The
  observation table is the function \<open>obs\<close> from identifier and project to the trace
  identifier, \<open>None\<close> where \<^verbatim>\<open>observation?.traceId\<close> has no value.\<close>

definition next_enrich ::
  "(string \<Rightarrow> string \<Rightarrow> string option) \<Rightarrow> string \<Rightarrow> AnnotationQueueItem \<Rightarrow>
   AnnotationQueueItem \<times> string option" where
  "next_enrich obs pid item =
     (if objectType item = OBSERVATION then (item, obs (objectId item) pid)
      else (item, None))"

text \<open>The whole procedure, run without another call in between: the item read (as it
  was read) or null, and the table after the write.\<close>

definition queue_next ::
  "(string \<Rightarrow> string \<Rightarrow> string option) \<Rightarrow> AnnotationQueueItem list \<Rightarrow>
   string \<Rightarrow> string \<Rightarrow> string \<Rightarrow> int \<Rightarrow>
   error + ((AnnotationQueueItem \<times> string option) option \<times> AnnotationQueueItem list)" where
  "queue_next obs rows qid pid uid now =
     (case next_find rows qid pid now of
        None \<Rightarrow> Inr (None, rows)
      | Some item \<Rightarrow>
          (case next_claim rows item pid uid now of
             Inl e \<Rightarrow> Inl e
           | Inr rows' \<Rightarrow> Inr (Some (next_enrich obs pid item), rows')))"

text \<open>One call of \<^verbatim>\<open>next\<close>: the queue, the project, the session's user and the
  \<^verbatim>\<open>new Date()\<close> it reads on entry.\<close>

record next_request =
  req_queueId :: string
  req_projectId :: string
  req_userId :: string
  req_now :: int

text \<open>Several calls in a row, each finished before the following one starts: what each
  returned or threw, and the table at the end.\<close>

fun next_serial ::
  "(string \<Rightarrow> string \<Rightarrow> string option) \<Rightarrow> AnnotationQueueItem list \<Rightarrow> next_request list \<Rightarrow>
   (error + (AnnotationQueueItem \<times> string option) option) list \<times> AnnotationQueueItem list" where
  "next_serial obs rows [] = ([], rows)"
| "next_serial obs rows (rq # rqs) =
     (case queue_next obs rows (req_queueId rq) (req_projectId rq) (req_userId rq) (req_now rq) of
        Inl e \<Rightarrow> (let (rs, rows') = next_serial obs rows rqs in (Inl e # rs, rows'))
      | Inr (r, rows') \<Rightarrow> (let (rs, rows'') = next_serial obs rows' rqs in (Inr r # rs, rows'')))"

text \<open>The items that the calls returned, in the order of the calls; a call that returned
  null or threw contributes none.\<close>

fun returned_items ::
  "(error + (AnnotationQueueItem \<times> string option) option) list \<Rightarrow> AnnotationQueueItem list" where
  "returned_items [] = []"
| "returned_items (Inr (Some (item, _)) # rs) = item # returned_items rs"
| "returned_items (_ # rs) = returned_items rs"

text \<open>
  Calls that overlap. The procedure awaits the store twice, first for the read and then
  for the write, and nothing joins the two: no transaction, and the write's \<^verbatim>\<open>where\<close>
  names the identifier and the project only. A call in progress is therefore at one of two
  points, before the read or between the read and the write, holding the item it read.
  A schedule names, step by step, the call whose next store operation runs.
\<close>

datatype next_pc =
    AtFind
  | AtUpdate AnnotationQueueItem
  | Finished "error + (AnnotationQueueItem \<times> string option) option"

fun next_step ::
  "(string \<Rightarrow> string \<Rightarrow> string option) \<Rightarrow> next_request \<Rightarrow> next_pc \<Rightarrow>
   AnnotationQueueItem list \<Rightarrow> next_pc \<times> AnnotationQueueItem list" where
  "next_step obs rq AtFind rows =
     (case next_find rows (req_queueId rq) (req_projectId rq) (req_now rq) of
        None \<Rightarrow> (Finished (Inr None), rows)
      | Some item \<Rightarrow> (AtUpdate item, rows))"
| "next_step obs rq (AtUpdate item) rows =
     (case next_claim rows item (req_projectId rq) (req_userId rq) (req_now rq) of
        Inl e \<Rightarrow> (Finished (Inl e), rows)
      | Inr rows' \<Rightarrow> (Finished (Inr (Some (next_enrich obs (req_projectId rq) item))), rows'))"
| "next_step obs rq (Finished r) rows = (Finished r, rows)"

fun next_run ::
  "(string \<Rightarrow> string \<Rightarrow> string option) \<Rightarrow> nat list \<Rightarrow>
   (next_request \<times> next_pc) list \<Rightarrow> AnnotationQueueItem list \<Rightarrow>
   (next_request \<times> next_pc) list \<times> AnnotationQueueItem list" where
  "next_run obs [] calls rows = (calls, rows)"
| "next_run obs (i # schedule) calls rows =
     (if i < length calls
      then (let (rq, pc) = calls ! i;
                (pc', rows') = next_step obs rq pc rows
            in next_run obs schedule (calls[i := (rq, pc')]) rows')
      else next_run obs schedule calls rows)"

subsection \<open>\<^verbatim>\<open>queueItemRouter\<close>: what the procedures share\<close>

text \<open>The \<^verbatim>\<open>catch\<close> block of \<^verbatim>\<open>create\<close>, \<^verbatim>\<open>createMany\<close> and \<^verbatim>\<open>delete\<close>: a
  \<^verbatim>\<open>TRPCError\<close> is thrown again as it is, anything else is replaced by an
  \<^verbatim>\<open>INTERNAL_SERVER_ERROR\<close> with the message of the procedure.\<close>

fun rethrow :: "string \<Rightarrow> error \<Rightarrow> error" where
  "rethrow msg (TRPCError code m) = TRPCError code m"
| "rethrow msg _ = TRPCError ''INTERNAL_SERVER_ERROR'' msg"

text \<open>
  Modelled from the spec: the declaration of the table (its column defaults) is not among
  the routers. An item is created pending with its lease and completion columns null, its
  identifier and its \<^verbatim>\<open>createdAt\<close> are assigned at creation (spec, section 3). The
  identifier is one above every identifier in the table.
\<close>

definition fresh_id :: "AnnotationQueueItem list \<Rightarrow> nat" where
  "fresh_id rows = Suc (fold max (map item_id rows) 0)"

definition new_item ::
  "AnnotationQueueItem list \<Rightarrow> string \<times> string \<times> string \<times> AnnotationQueueObjectType \<Rightarrow> int \<Rightarrow>
   AnnotationQueueItem" where
  "new_item rows d now =
     (case d of (pid, qid, oid, oty) \<Rightarrow>
        \<lparr>item_id = fresh_id rows, projectId = pid, queueId = qid, objectId = oid,
         objectType = oty, status = PENDING, editStartTime = None,
         editStartByUserId = None, annotatorUserId = None, completedAt = None,
         createdAt = now\<rparr>)"

text \<open>
  Modelled from the spec: the unique constraints of the table are declared with it, not
  in the routers. The store calls below take them as the relation \<open>uq\<close>, true of two rows
  that no unique constraint lets coexist. The spec's rule is invariant I3: enrollment never
  creates two items with the same queue and object reference while an existing item for
  that pair is present, where completed items do not block re-enrollment under the same
  pair (the rule "skip duplicates on existing pending"). Section 4.3 (pairs that already exist as
  items in the queue are skipped) is read with that exception. So two rows exclude each
  other exactly when both are pending and have the same queue and object reference.
\<close>

definition queue_object_ref ::
  "AnnotationQueueItem \<Rightarrow> string \<times> string \<times> AnnotationQueueObjectType" where
  "queue_object_ref r = (queueId r, objectId r, objectType r)"

definition pending_object_unique :: "AnnotationQueueItem \<Rightarrow> AnnotationQueueItem \<Rightarrow> bool" where
  "pending_object_unique a b \<longleftrightarrow>
     status a = PENDING \<and> status b = PENDING \<and> queue_object_ref a = queue_object_ref b"

text \<open>\<^verbatim>\<open>create({ data })\<close>: inserts the row, or throws when a unique constraint forbids it.\<close>

definition prisma_create ::
  "(AnnotationQueueItem \<Rightarrow> AnnotationQueueItem \<Rightarrow> bool) \<Rightarrow>
   string \<times> string \<times> string \<times> AnnotationQueueObjectType \<Rightarrow> int \<Rightarrow>
   AnnotationQueueItem list \<Rightarrow> error + (AnnotationQueueItem \<times> AnnotationQueueItem list)" where
  "prisma_create uq d now rows =
     (let r = new_item rows d now
      in if \<exists>x \<in> set rows. uq x r then Inl (PrismaError ''Unique constraint failed'')
         else Inr (r, rows @ [r]))"

text \<open>\<^verbatim>\<open>createMany({ data, skipDuplicates: true })\<close>: inserts the rows in order, leaves
  out each one that a unique constraint forbids (against the table or against a row of the
  same call inserted before it), and counts the rows inserted.\<close>

fun prisma_createMany_skipDuplicates ::
  "(AnnotationQueueItem \<Rightarrow> AnnotationQueueItem \<Rightarrow> bool) \<Rightarrow>
   (string \<times> string \<times> string \<times> AnnotationQueueObjectType) list \<Rightarrow> int \<Rightarrow>
   AnnotationQueueItem list \<Rightarrow> nat \<times> AnnotationQueueItem list" where
  "prisma_createMany_skipDuplicates uq [] now rows = (0, rows)"
| "prisma_createMany_skipDuplicates uq (d # ds) now rows =
     (let r = new_item rows d now
      in if \<exists>x \<in> set rows. uq x r then prisma_createMany_skipDuplicates uq ds now rows
         else (let (n, rows') = prisma_createMany_skipDuplicates uq ds now (rows @ [r])
               in (Suc n, rows')))"

text \<open>\<^verbatim>\<open>findFirst({ where })\<close> with no order: the first matching row the store finds.\<close>

definition prisma_findFirst ::
  "(AnnotationQueueItem \<Rightarrow> bool) \<Rightarrow> AnnotationQueueItem list \<Rightarrow> AnnotationQueueItem option" where
  "prisma_findFirst wh rows = find wh rows"

text \<open>\<^verbatim>\<open>delete({ where: { id, projectId } })\<close>: removes the row and returns it, and throws
  when there is none.\<close>

definition prisma_delete ::
  "nat \<Rightarrow> string \<Rightarrow> AnnotationQueueItem list \<Rightarrow>
   error + (AnnotationQueueItem \<times> AnnotationQueueItem list)" where
  "prisma_delete i pid rows =
     (case find (\<lambda>r. item_id r = i \<and> projectId r = pid) rows of
        None \<Rightarrow> Inl (PrismaError ''Record to delete does not exist.'')
      | Some d \<Rightarrow> Inr (d, filter (\<lambda>r. \<not> (item_id r = i \<and> projectId r = pid)) rows))"

text \<open>\<^verbatim>\<open>updateMany({ where, data })\<close>: writes \<^verbatim>\<open>data\<close> into every matching row and
  returns their number.\<close>

definition prisma_updateMany ::
  "(AnnotationQueueItem \<Rightarrow> bool) \<Rightarrow> (AnnotationQueueItem \<Rightarrow> AnnotationQueueItem) \<Rightarrow>
   AnnotationQueueItem list \<Rightarrow> nat \<times> AnnotationQueueItem list" where
  "prisma_updateMany wh data rows =
     (length (filter wh rows), map (\<lambda>r. if wh r then data r else r) rows)"

subsection \<open>\<^verbatim>\<open>queueItemRouter.create\<close>\<close>

text \<open>In \<^verbatim>\<open>create\<close>, \<^verbatim>\<open>createMany\<close> and \<^verbatim>\<open>delete\<close>, \<open>access\<close> is the outcome of
  \<^verbatim>\<open>throwIfNoProjectAccess\<close>: \<open>None\<close> when it returns, \<open>Some e\<close> when it throws
  \<open>e\<close>.\<close>

definition queueItem_create ::
  "(AnnotationQueueItem \<Rightarrow> AnnotationQueueItem \<Rightarrow> bool) \<Rightarrow> error option \<Rightarrow>
   AnnotationQueueItem list \<Rightarrow> string \<Rightarrow> string \<Rightarrow> string \<Rightarrow> AnnotationQueueObjectType \<Rightarrow> int \<Rightarrow>
   error + (AnnotationQueueItem \<times> AnnotationQueueItem list)" where
  "queueItem_create uq access rows pid qid oid oty now =
     (case access of
        Some e \<Rightarrow> Inl (rethrow ''Creating annotation queue failed.'' e)
      | None \<Rightarrow>
          (case prisma_create uq (pid, qid, oid, oty) now rows of
             Inl e \<Rightarrow> Inl (rethrow ''Creating annotation queue failed.'' e)
           | Inr (queueItem, rows') \<Rightarrow> Inr (queueItem, rows')))"

subsection \<open>\<^verbatim>\<open>queueItemRouter.createMany\<close>\<close>

record createMany_result =
  count :: nat
  totalRequested :: nat
  created :: nat

definition MAX_ITEMS :: nat where
  "MAX_ITEMS = 500"

definition queueItem_createMany ::
  "(AnnotationQueueItem \<Rightarrow> AnnotationQueueItem \<Rightarrow> bool) \<Rightarrow> error option \<Rightarrow>
   AnnotationQueueItem list \<Rightarrow> string \<Rightarrow> string \<Rightarrow> string list \<Rightarrow> AnnotationQueueObjectType \<Rightarrow>
   int \<Rightarrow> error + (createMany_result \<times> AnnotationQueueItem list)" where
  "queueItem_createMany uq access rows pid qid objectIds oty now =
     (case access of
        Some e \<Rightarrow> Inl (rethrow ''Creating multiple annotation queue items failed.'' e)
      | None \<Rightarrow>
          (let limitedObjectIds = take MAX_ITEMS objectIds;
               (n, rows') = prisma_createMany_skipDuplicates uq
                              (map (\<lambda>objectId. (pid, qid, objectId, oty)) limitedObjectIds)
                              now rows
           in Inr (\<lparr>count = n, totalRequested = length objectIds,
                     created = min (length objectIds) MAX_ITEMS\<rparr>, rows')))"

subsection \<open>\<^verbatim>\<open>queueItemRouter.delete\<close>\<close>

definition queueItem_delete ::
  "error option \<Rightarrow> AnnotationQueueItem list \<Rightarrow> string \<Rightarrow> string \<Rightarrow> AnnotationQueueObjectType \<Rightarrow>
   error + (AnnotationQueueItem \<times> AnnotationQueueItem list)" where
  "queueItem_delete access rows pid oid oty =
     (case access of
        Some e \<Rightarrow> Inl (rethrow ''Creating annotation queue failed.'' e)
      | None \<Rightarrow>
          (case prisma_findFirst
                  (\<lambda>r. objectId r = oid \<and> objectType r = oty \<and> projectId r = pid) rows of
             None \<Rightarrow>
               Inl (rethrow ''Creating annotation queue failed.''
                      (LangfuseNotFoundError ''Annotation queue item not found.''))
           | Some item \<Rightarrow>
               (case prisma_delete (item_id item) pid rows of
                  Inl e \<Rightarrow> Inl (rethrow ''Creating annotation queue failed.'' e)
                | Inr (deletedItem, rows') \<Rightarrow> Inr (deletedItem, rows'))))"

subsection \<open>\<^verbatim>\<open>queueItemRouter.complete\<close>\<close>

text \<open>The procedure has no access check and no \<^verbatim>\<open>catch\<close>; it returns the count of
  \<^verbatim>\<open>updateMany\<close>.\<close>

definition queueItem_complete ::
  "AnnotationQueueItem list \<Rightarrow> string \<Rightarrow> string \<Rightarrow> string \<Rightarrow> AnnotationQueueObjectType \<Rightarrow>
   string \<Rightarrow> int \<Rightarrow> nat \<times> AnnotationQueueItem list" where
  "queueItem_complete rows pid annotationQueueId oid oty uid now =
     prisma_updateMany
       (\<lambda>r. queueId r = annotationQueueId \<and> projectId r = pid \<and>
            objectId r = oid \<and> objectType r = oty)
       (\<lambda>r. r\<lparr>status := COMPLETED, completedAt := Some now, annotatorUserId := Some uid\<rparr>)
       rows"

section \<open>Properties\<close>

subsection \<open>The store calls of \<^verbatim>\<open>next\<close>\<close>

text \<open>
  The ordered read returns nothing exactly when no row matches; otherwise it returns a
  matching row with the least key, and of the rows with that key the first in the order
  of the store.
\<close>

lemma findFirst_orderBy_None:
  "prisma_findFirst_orderBy wh key rows = None \<longleftrightarrow> (\<forall>r \<in> set rows. \<not> wh r)"
proof -
  have "sort_key key (filter wh rows) = [] \<longleftrightarrow> filter wh rows = []"
    by (metis length_sort length_0_conv)
  then show ?thesis
    by (auto simp: prisma_findFirst_orderBy_def filter_empty_conv split: list.splits)
qed

lemma findFirst_orderBy_split:
  "prisma_findFirst_orderBy wh key rows = Some r \<Longrightarrow>
   \<exists>xs ys. rows = xs @ r # ys \<and> wh r \<and> (\<forall>a \<in> set xs. wh a \<longrightarrow> key r < key a) \<and>
           (\<forall>b \<in> set ys. wh b \<longrightarrow> key r \<le> key b)"
proof (induction rows arbitrary: r)
  case Nil
  then show ?case by (simp add: prisma_findFirst_orderBy_def)
next
  case (Cons x rows)
  show ?case
  proof (cases "wh x")
    case False
    with Cons.prems have "prisma_findFirst_orderBy wh key rows = Some r"
      by (simp add: prisma_findFirst_orderBy_def)
    from Cons.IH [OF this] obtain xs ys where
      "rows = xs @ r # ys" "wh r" "\<forall>a \<in> set xs. wh a \<longrightarrow> key r < key a"
      "\<forall>b \<in> set ys. wh b \<longrightarrow> key r \<le> key b" by blast
    with False have "x # rows = (x # xs) @ r # ys \<and> wh r \<and>
        (\<forall>a \<in> set (x # xs). wh a \<longrightarrow> key r < key a) \<and> (\<forall>b \<in> set ys. wh b \<longrightarrow> key r \<le> key b)"
      by simp
    then show ?thesis by blast
  next
    case True
    show ?thesis
    proof (cases "prisma_findFirst_orderBy wh key rows")
      case None
      then have none: "\<forall>r \<in> set rows. \<not> wh r"
        by (simp add: findFirst_orderBy_None)
      then have "filter wh rows = []" by (simp add: filter_empty_conv)
      with True Cons.prems have "r = x"
        by (simp add: prisma_findFirst_orderBy_def)
      with True none have "x # rows = [] @ r # rows \<and> wh r \<and>
        (\<forall>a \<in> set []. wh a \<longrightarrow> key r < key a) \<and> (\<forall>b \<in> set rows. wh b \<longrightarrow> key r \<le> key b)"
        by simp
      then show ?thesis by blast
    next
      case (Some y)
      then obtain zs where srt: "sort_key key (filter wh rows) = y # zs"
        by (auto simp: prisma_findFirst_orderBy_def split: list.splits)
      from Cons.IH [OF Some] obtain xs ys where
        sp: "rows = xs @ y # ys" "wh y" "\<forall>a \<in> set xs. wh a \<longrightarrow> key y < key a"
        "\<forall>b \<in> set ys. wh b \<longrightarrow> key y \<le> key b" by blast
      show ?thesis
      proof (cases "key x \<le> key y")
        case le: True
        with True Cons.prems srt have "r = x"
          by (simp add: prisma_findFirst_orderBy_def)
        moreover have "\<forall>b \<in> set rows. wh b \<longrightarrow> key x \<le> key b"
          using sp le by (auto simp: less_imp_le order_trans dest!: bspec)
        ultimately have "x # rows = [] @ r # rows \<and> wh r \<and>
          (\<forall>a \<in> set []. wh a \<longrightarrow> key r < key a) \<and> (\<forall>b \<in> set rows. wh b \<longrightarrow> key r \<le> key b)"
          using True by simp
        then show ?thesis by blast
      next
        case gt: False
        with True Cons.prems srt have "r = y"
          by (simp add: prisma_findFirst_orderBy_def)
        with sp gt True have "x # rows = (x # xs) @ r # ys \<and> wh r \<and>
          (\<forall>a \<in> set (x # xs). wh a \<longrightarrow> key r < key a) \<and> (\<forall>b \<in> set ys. wh b \<longrightarrow> key r \<le> key b)"
          by simp
        then show ?thesis by blast
      qed
    qed
  qed
qed

lemma next_find_Some:
  assumes "next_find rows q p now = Some item"
  shows "\<exists>xs ys. rows = xs @ item # ys \<and> next_where q p (now - 5 * 60 * 1000) item \<and>
           (\<forall>a \<in> set xs. next_where q p (now - 5 * 60 * 1000) a \<longrightarrow> createdAt item < createdAt a) \<and>
           (\<forall>b \<in> set ys. next_where q p (now - 5 * 60 * 1000) b \<longrightarrow> createdAt item \<le> createdAt b)"
  using assms unfolding next_find_def Let_def by (rule findFirst_orderBy_split)

lemma next_find_None:
  "next_find rows q p now = None \<longleftrightarrow> (\<forall>r \<in> set rows. \<not> next_where q p (now - 5 * 60 * 1000) r)"
  by (simp add: next_find_def findFirst_orderBy_None)

text \<open>
  The identifier is the primary key of the table, so a table has no two rows with the
  same one. On such a table the write of \<^verbatim>\<open>next\<close> touches the row it read and no
  other, and the procedure does not throw.
\<close>

lemma update_one_row:
  assumes "distinct (map item_id rows)" and "rows = xs @ r # ys"
  shows "map (\<lambda>x. if item_id x = item_id r \<and> projectId x = projectId r then f x else x) rows
         = xs @ f r # ys"
proof -
  from assms have "\<forall>x \<in> set xs \<union> set ys. item_id x \<noteq> item_id r"
    by (auto simp: image_iff)
  then have "map (\<lambda>x. if item_id x = item_id r \<and> projectId x = projectId r then f x else x) xs = xs"
    and "map (\<lambda>x. if item_id x = item_id r \<and> projectId x = projectId r then f x else x) ys = ys"
    by (simp_all add: map_idI)
  with assms(2) show ?thesis by simp
qed

lemma next_claim_found:
  assumes "distinct (map item_id rows)" and "rows = xs @ item # ys" and "projectId item = p"
  shows "next_claim rows item p u now =
           Inr (xs @ item\<lparr>editStartTime := Some now, editStartByUserId := Some u\<rparr> # ys)"
proof -
  have "\<exists>r \<in> set rows. item_id r = item_id item \<and> projectId r = p"
    using assms by auto
  moreover have "map (\<lambda>x. if item_id x = item_id item \<and> projectId x = p
        then x\<lparr>editStartTime := Some now, editStartByUserId := Some u\<rparr> else x) rows
      = xs @ item\<lparr>editStartTime := Some now, editStartByUserId := Some u\<rparr> # ys"
    using update_one_row [OF assms(1,2)] assms(3) by simp
  ultimately show ?thesis
    by (simp add: next_claim_def prisma_update_def)
qed

lemma queue_next_cases:
  assumes "distinct (map item_id rows)"
  shows "(next_find rows q p now = None \<and> queue_next obs rows q p u now = Inr (None, rows)) \<or>
         (\<exists>item xs ys. next_find rows q p now = Some item \<and> rows = xs @ item # ys \<and>
            queue_next obs rows q p u now =
              Inr (Some (next_enrich obs p item),
                   xs @ item\<lparr>editStartTime := Some now, editStartByUserId := Some u\<rparr> # ys))"
proof (cases "next_find rows q p now")
  case None
  then show ?thesis by (simp add: queue_next_def)
next
  case (Some item)
  from next_find_Some [OF Some] obtain xs ys where
    sp: "rows = xs @ item # ys" and wh: "next_where q p (now - 5 * 60 * 1000) item"
    by blast
  from wh have "projectId item = p" by (simp add: next_where_def)
  from next_claim_found [OF assms sp this]
  have "queue_next obs rows q p u now =
      Inr (Some (next_enrich obs p item),
           xs @ item\<lparr>editStartTime := Some now, editStartByUserId := Some u\<rparr> # ys)"
    by (simp add: queue_next_def Some)
  with Some sp show ?thesis by blast
qed

lemma queue_next_returned:
  "queue_next obs rows q p u now = Inr (Some (item, tr), rows') \<Longrightarrow>
   next_find rows q p now = Some item"
  by (auto simp: queue_next_def next_enrich_def split: option.splits sum.splits if_splits)

subsection \<open>Lease expiry\<close>

text \<open>
  Claim C3, as the code has it. A pending item of the queue whose lease started at \<open>T\<close>
  matches the \<^verbatim>\<open>where\<close> clause of \<^verbatim>\<open>next\<close> at \<open>now\<close> exactly when
  \<open>now - T\<close> is more than five minutes (300000 ms): the comparison is \<^verbatim>\<open>lt\<close>, so at
  exactly five minutes the lease still holds. An item never leased always matches. While
  some item of the table matches, \<^verbatim>\<open>next\<close> finds an item no younger than it, and an item
  that does not match is never the one found.
\<close>

theorem next_lease_expiry:
  assumes "r \<in> set rows" and "queueId r = q" and "projectId r = p" and "status r = PENDING"
  shows "(editStartTime r = None \<longrightarrow> next_where q p (now - 5 * 60 * 1000) r) \<and>
         (\<forall>T. editStartTime r = Some T \<longrightarrow>
              (next_where q p (now - 5 * 60 * 1000) r \<longleftrightarrow> 300000 < now - T)) \<and>
         (next_where q p (now - 5 * 60 * 1000) r \<longrightarrow>
              (\<exists>r'. next_find rows q p now = Some r' \<and> createdAt r' \<le> createdAt r)) \<and>
         (\<not> next_where q p (now - 5 * 60 * 1000) r \<longrightarrow> next_find rows q p now \<noteq> Some r)"
proof -
  have a: "editStartTime r = None \<longrightarrow> next_where q p (now - 5 * 60 * 1000) r"
    using assms by (simp add: next_where_def)
  have b: "\<forall>T. editStartTime r = Some T \<longrightarrow>
              (next_where q p (now - 5 * 60 * 1000) r \<longleftrightarrow> 300000 < now - T)"
    using assms by (auto simp: next_where_def)
  have c: "next_where q p (now - 5 * 60 * 1000) r \<longrightarrow>
              (\<exists>r'. next_find rows q p now = Some r' \<and> createdAt r' \<le> createdAt r)"
  proof
    assume wh: "next_where q p (now - 5 * 60 * 1000) r"
    with assms(1) have "next_find rows q p now \<noteq> None"
      by (auto simp: next_find_None)
    then obtain r' where s: "next_find rows q p now = Some r'" by auto
    from next_find_Some [OF s] wh assms(1) have "createdAt r' \<le> createdAt r"
      by (auto simp: less_imp_le)
    with s show "\<exists>r'. next_find rows q p now = Some r' \<and> createdAt r' \<le> createdAt r"
      by blast
  qed
  have d: "\<not> next_where q p (now - 5 * 60 * 1000) r \<longrightarrow> next_find rows q p now \<noteq> Some r"
    using next_find_Some [of rows q p now r] by blast
  from a b c d show ?thesis by blast
qed

theorem next_lease_expiry_witness:
  "next_where ''q'' ''p'' (301001 - 5 * 60 * 1000)
     \<lparr>item_id = 1, projectId = ''p'', queueId = ''q'', objectId = ''o'',
       objectType = TRACE, status = PENDING, editStartTime = Some 1000,
       editStartByUserId = Some ''u1'', annotatorUserId = None, completedAt = None,
       createdAt = 5\<rparr> \<and>
   (\<exists>r'. next_find
      [\<lparr>item_id = 1, projectId = ''p'', queueId = ''q'', objectId = ''o'',
       objectType = TRACE, status = PENDING, editStartTime = Some 1000,
       editStartByUserId = Some ''u1'', annotatorUserId = None, completedAt = None,
       createdAt = 5\<rparr>]
      ''q'' ''p'' 301001 = Some r' \<and> createdAt r' \<le> 5)"
proof -
  let ?r = "\<lparr>item_id = 1, projectId = ''p'', queueId = ''q'', objectId = ''o'',
       objectType = TRACE, status = PENDING, editStartTime = Some 1000,
       editStartByUserId = Some ''u1'', annotatorUserId = None, completedAt = None,
       createdAt = 5\<rparr>"
  have h: "?r \<in> set [?r]" "queueId ?r = ''q''" "projectId ?r = ''p''" "status ?r = PENDING"
    by simp_all
  from next_lease_expiry [OF h, of 301001] show ?thesis by simp
qed

text \<open>
  Claim C3 as stated fails at the boundary: an item leased at time 0 is, at time 300000,
  leased for exactly the duration, and \<^verbatim>\<open>next\<close> still returns no item.
\<close>

theorem lease_at_duration_not_claimable:
  "(300000::int) - 0 \<ge> 5 * 60 * 1000 \<and>
   queue_next (\<lambda>_ _. None)
     [\<lparr>item_id = 1, projectId = ''p'', queueId = ''q'', objectId = ''o'',
       objectType = TRACE, status = PENDING, editStartTime = Some 0,
       editStartByUserId = Some ''u1'', annotatorUserId = None, completedAt = None,
       createdAt = 5\<rparr>]
     ''q'' ''p'' ''u2'' 300000 =
   Inr (None,
     [\<lparr>item_id = 1, projectId = ''p'', queueId = ''q'', objectId = ''o'',
       objectType = TRACE, status = PENDING, editStartTime = Some 0,
       editStartByUserId = Some ''u1'', annotatorUserId = None, completedAt = None,
       createdAt = 5\<rparr>])"
  by (simp add: queue_next_def next_find_def prisma_findFirst_orderBy_def next_where_def)

subsection \<open>Selection order\<close>

text \<open>
  Claim C4, as the code has it. The item \<^verbatim>\<open>next\<close> returns matches the \<^verbatim>\<open>where\<close>
  clause, no matching item is older, and among the matching items with the same
  \<^verbatim>\<open>createdAt\<close> it is the first in the order of the store (the query orders by
  \<^verbatim>\<open>createdAt\<close> alone). Calls made one after the other within five minutes, on a table
  whose pending items of the queue are unleased, return items in order of \<^verbatim>\<open>createdAt\<close>.
\<close>

lemma returned_items_enrich:
  "returned_items (Inr (Some (next_enrich obs p item)) # rs) = item # returned_items rs"
  by (simp add: next_enrich_def)

lemma next_serial_step:
  assumes "queue_next obs rows (req_queueId rq) (req_projectId rq) (req_userId rq) (req_now rq)
             = Inr (r, rows')"
  shows "next_serial obs rows (rq # rqs) =
           (Inr r # fst (next_serial obs rows' rqs), snd (next_serial obs rows' rqs))"
  using assms by (simp add: split_beta)

lemma next_serial_claims:
  assumes "distinct (map item_id rows)"
    and "\<exists>r \<in> set rows. next_where (req_queueId rq) (req_projectId rq) (req_now rq - 5 * 60 * 1000) r"
  shows "\<exists>item xs ys. rows = xs @ item # ys \<and>
           next_where (req_queueId rq) (req_projectId rq) (req_now rq - 5 * 60 * 1000) item \<and>
           (\<forall>r \<in> set rows. next_where (req_queueId rq) (req_projectId rq)
                               (req_now rq - 5 * 60 * 1000) r \<longrightarrow> createdAt item \<le> createdAt r) \<and>
           next_serial obs rows (rq # rqs) =
             (Inr (Some (next_enrich obs (req_projectId rq) item)) #
                fst (next_serial obs
                       (xs @ item\<lparr>editStartTime := Some (req_now rq),
                                   editStartByUserId := Some (req_userId rq)\<rparr> # ys) rqs),
              snd (next_serial obs
                     (xs @ item\<lparr>editStartTime := Some (req_now rq),
                                 editStartByUserId := Some (req_userId rq)\<rparr> # ys) rqs))"
proof -
  let ?q = "req_queueId rq" and ?p = "req_projectId rq" and ?now = "req_now rq"
  from assms(2) have "next_find rows ?q ?p ?now \<noteq> None"
    by (simp add: next_find_None)
  with queue_next_cases [OF assms(1), of ?q ?p ?now obs "req_userId rq"]
  obtain item xs ys where found: "next_find rows ?q ?p ?now = Some item"
    and sp: "rows = xs @ item # ys"
    and qn: "queue_next obs rows ?q ?p (req_userId rq) ?now =
              Inr (Some (next_enrich obs ?p item),
                   xs @ item\<lparr>editStartTime := Some ?now,
                              editStartByUserId := Some (req_userId rq)\<rparr> # ys)"
    by auto
  from next_find_Some [OF found] obtain xs' ys' where
    f: "rows = xs' @ item # ys'" "next_where ?q ?p (?now - 5 * 60 * 1000) item"
       "\<forall>a \<in> set xs'. next_where ?q ?p (?now - 5 * 60 * 1000) a \<longrightarrow> createdAt item < createdAt a"
       "\<forall>b \<in> set ys'. next_where ?q ?p (?now - 5 * 60 * 1000) b \<longrightarrow> createdAt item \<le> createdAt b"
    by blast
  have least: "\<forall>r \<in> set rows. next_where ?q ?p (?now - 5 * 60 * 1000) r \<longrightarrow>
      createdAt item \<le> createdAt r"
  proof (intro ballI impI)
    fix r assume "r \<in> set rows" and w: "next_where ?q ?p (?now - 5 * 60 * 1000) r"
    with f(1) have "r \<in> set xs' \<or> r = item \<or> r \<in> set ys'" by auto
    with f(3,4) w show "createdAt item \<le> createdAt r"
      by (auto simp: less_imp_le)
  qed
  from next_serial_step [OF qn] sp f(2) least show ?thesis by blast
qed

lemma next_serial_fifo:
  assumes "distinct (map item_id rows)"
    and "\<forall>r \<in> set rows. queueId r = q \<and> projectId r = p \<and> status r = PENDING \<longrightarrow>
           editStartTime r = None \<or> (\<exists>t. editStartTime r = Some t \<and> T \<le> t)"
    and "\<forall>rq \<in> set rqs. req_queueId rq = q \<and> req_projectId rq = p \<and>
           T \<le> req_now rq \<and> req_now rq \<le> T + 300000"
  shows "set (returned_items (fst (next_serial obs rows rqs))) \<subseteq>
           {r \<in> set rows. queueId r = q \<and> projectId r = p \<and> status r = PENDING \<and>
                          editStartTime r = None} \<and>
         sorted (map createdAt (returned_items (fst (next_serial obs rows rqs))))"
  using assms
proof (induction rqs arbitrary: rows)
  case Nil
  then show ?case by simp
next
  case (Cons rq rqs)
  let ?U = "\<lambda>r. queueId r = q \<and> projectId r = p \<and> status r = PENDING \<and> editStartTime r = None"
  let ?now = "req_now rq"
  from Cons.prems(3) have rq: "req_queueId rq = q" "req_projectId rq = p"
    "T \<le> ?now" "?now \<le> T + 300000" by simp_all
  from Cons.prems(3) have win': "\<forall>rq \<in> set rqs. req_queueId rq = q \<and> req_projectId rq = p \<and>
           T \<le> req_now rq \<and> req_now rq \<le> T + 300000" by simp
  have elig: "\<forall>r \<in> set rows. next_where q p (?now - 5 * 60 * 1000) r \<longleftrightarrow> ?U r"
  proof
    fix r assume r: "r \<in> set rows"
    show "next_where q p (?now - 5 * 60 * 1000) r \<longleftrightarrow> ?U r"
    proof
      assume w: "next_where q p (?now - 5 * 60 * 1000) r"
      then have qp: "queueId r = q \<and> projectId r = p \<and> status r = PENDING"
        by (simp add: next_where_def)
      with Cons.prems(2) r
      have "editStartTime r = None \<or> (\<exists>t. editStartTime r = Some t \<and> T \<le> t)" by blast
      moreover from w rq(4) have "\<not> (\<exists>t. editStartTime r = Some t \<and> T \<le> t)"
        by (auto simp: next_where_def)
      ultimately show "?U r" using qp by blast
    next
      assume "?U r"
      then show "next_where q p (?now - 5 * 60 * 1000) r" by (simp add: next_where_def)
    qed
  qed
  show ?case
  proof (cases "\<exists>r \<in> set rows. next_where q p (?now - 5 * 60 * 1000) r")
    case False
    then have "next_find rows q p ?now = None" by (simp add: next_find_None)
    then have "queue_next obs rows (req_queueId rq) (req_projectId rq) (req_userId rq) ?now
        = Inr (None, rows)"
      by (simp add: queue_next_def rq(1,2))
    from next_serial_step [OF this]
    have ret: "returned_items (fst (next_serial obs rows (rq # rqs))) =
        returned_items (fst (next_serial obs rows rqs))"
      by (simp del: next_serial.simps)
    from Cons.IH [OF Cons.prems(1,2) win'] show ?thesis
      unfolding ret .
  next
    case True
    with next_serial_claims [OF Cons.prems(1), of rq obs rqs] rq(1,2)
    obtain item xs ys where sp: "rows = xs @ item # ys"
      and wh: "next_where q p (?now - 5 * 60 * 1000) item"
      and least: "\<forall>r \<in> set rows. next_where q p (?now - 5 * 60 * 1000) r \<longrightarrow>
          createdAt item \<le> createdAt r"
      and ser: "next_serial obs rows (rq # rqs) =
             (Inr (Some (next_enrich obs p item)) #
                fst (next_serial obs
                       (xs @ item\<lparr>editStartTime := Some ?now,
                                   editStartByUserId := Some (req_userId rq)\<rparr> # ys) rqs),
              snd (next_serial obs
                     (xs @ item\<lparr>editStartTime := Some ?now,
                                 editStartByUserId := Some (req_userId rq)\<rparr> # ys) rqs))"
      by auto
    let ?item' = "item\<lparr>editStartTime := Some ?now, editStartByUserId := Some (req_userId rq)\<rparr>"
    let ?rows' = "xs @ ?item' # ys"
    have ret: "returned_items (fst (next_serial obs rows (rq # rqs))) =
        item # returned_items (fst (next_serial obs ?rows' rqs))"
      unfolding ser fst_conv by (rule returned_items_enrich)
    have d': "distinct (map item_id ?rows')"
      using Cons.prems(1) sp by simp
    have inv': "\<forall>r \<in> set ?rows'. queueId r = q \<and> projectId r = p \<and> status r = PENDING \<longrightarrow>
           editStartTime r = None \<or> (\<exists>t. editStartTime r = Some t \<and> T \<le> t)"
    proof
      fix r assume "r \<in> set ?rows'"
      then have "r = ?item' \<or> r \<in> set rows" using sp by auto
      then show "queueId r = q \<and> projectId r = p \<and> status r = PENDING \<longrightarrow>
           editStartTime r = None \<or> (\<exists>t. editStartTime r = Some t \<and> T \<le> t)"
      proof
        assume "r = ?item'"
        with rq(3) show ?thesis by simp
      next
        assume "r \<in> set rows"
        with Cons.prems(2) show ?thesis by blast
      qed
    qed
    from Cons.IH [OF d' inv' win']
    have ih: "set (returned_items (fst (next_serial obs ?rows' rqs))) \<subseteq> {r \<in> set ?rows'. ?U r}"
      "sorted (map createdAt (returned_items (fst (next_serial obs ?rows' rqs))))"
      by blast+
    have sub: "{r \<in> set ?rows'. ?U r} \<subseteq> {r \<in> set rows. ?U r}"
    proof
      fix r assume "r \<in> {r \<in> set ?rows'. ?U r}"
      then have r: "r \<in> set ?rows'" "?U r" by simp_all
      from r(2) have "r \<noteq> ?item'" by auto
      with r(1) sp have "r \<in> set rows" by auto
      with r(2) show "r \<in> {r \<in> set rows. ?U r}" by simp
    qed
    have item_in: "item \<in> set rows" using sp by simp
    with wh elig have "?U item" by blast
    with item_in ih(1) sub
    have c1: "set (returned_items (fst (next_serial obs rows (rq # rqs)))) \<subseteq> {r \<in> set rows. ?U r}"
      unfolding ret by auto
    have "\<forall>r \<in> set (returned_items (fst (next_serial obs ?rows' rqs))).
        createdAt item \<le> createdAt r"
    proof
      fix r assume "r \<in> set (returned_items (fst (next_serial obs ?rows' rqs)))"
      with ih(1) sub have "r \<in> set rows" "?U r" by auto
      with elig have "next_where q p (?now - 5 * 60 * 1000) r" by blast
      with least \<open>r \<in> set rows\<close> show "createdAt item \<le> createdAt r" by blast
    qed
    with ih(2)
    have c2: "sorted (map createdAt (returned_items (fst (next_serial obs rows (rq # rqs)))))"
      unfolding ret by simp
    from c1 c2 show ?thesis by (rule conjI)
  qed
qed

text \<open>
  Claim C4: what \<^verbatim>\<open>next\<close> returns is an oldest item among those it may claim, with
  ties left to the order of the store, and successive calls drain the queue oldest first.
\<close>

theorem next_oldest_eligible:
  "(queue_next obs rows q p u now = Inr (Some (item, tr), rows') \<longrightarrow>
      (\<exists>xs ys. rows = xs @ item # ys \<and> next_where q p (now - 5 * 60 * 1000) item \<and>
         (\<forall>a \<in> set xs. next_where q p (now - 5 * 60 * 1000) a \<longrightarrow> createdAt item < createdAt a) \<and>
         (\<forall>b \<in> set ys. next_where q p (now - 5 * 60 * 1000) b \<longrightarrow> createdAt item \<le> createdAt b))) \<and>
   (distinct (map item_id rows) \<and>
    (\<forall>r \<in> set rows. queueId r = q \<and> projectId r = p \<and> status r = PENDING \<longrightarrow>
       editStartTime r = None) \<and>
    (\<forall>rq \<in> set rqs. req_queueId rq = q \<and> req_projectId rq = p \<and>
       T \<le> req_now rq \<and> req_now rq \<le> T + 300000) \<longrightarrow>
      sorted (map createdAt (returned_items (fst (next_serial obs rows rqs)))))"
proof (rule conjI; rule impI)
  assume "queue_next obs rows q p u now = Inr (Some (item, tr), rows')"
  then have "next_find rows q p now = Some item" by (rule queue_next_returned)
  then show "\<exists>xs ys. rows = xs @ item # ys \<and> next_where q p (now - 5 * 60 * 1000) item \<and>
         (\<forall>a \<in> set xs. next_where q p (now - 5 * 60 * 1000) a \<longrightarrow> createdAt item < createdAt a) \<and>
         (\<forall>b \<in> set ys. next_where q p (now - 5 * 60 * 1000) b \<longrightarrow> createdAt item \<le> createdAt b)"
    by (rule next_find_Some)
next
  assume h: "distinct (map item_id rows) \<and>
    (\<forall>r \<in> set rows. queueId r = q \<and> projectId r = p \<and> status r = PENDING \<longrightarrow>
       editStartTime r = None) \<and>
    (\<forall>rq \<in> set rqs. req_queueId rq = q \<and> req_projectId rq = p \<and>
       T \<le> req_now rq \<and> req_now rq \<le> T + 300000)"
  then have inv: "\<forall>r \<in> set rows. queueId r = q \<and> projectId r = p \<and> status r = PENDING \<longrightarrow>
           editStartTime r = None \<or> (\<exists>t. editStartTime r = Some t \<and> T \<le> t)"
    by blast
  from h have d: "distinct (map item_id rows)"
    and w: "\<forall>rq \<in> set rqs. req_queueId rq = q \<and> req_projectId rq = p \<and>
       T \<le> req_now rq \<and> req_now rq \<le> T + 300000" by blast+
  from next_serial_fifo [OF d inv w, of obs]
  show "sorted (map createdAt (returned_items (fst (next_serial obs rows rqs))))"
    by (rule conjunct2)
qed

theorem next_oldest_eligible_witness:
  "(\<exists>xs ys.
      [\<lparr>item_id = 1, projectId = ''p'', queueId = ''q'', objectId = ''o'',
       objectType = TRACE, status = PENDING, editStartTime = None,
       editStartByUserId = None, annotatorUserId = None, completedAt = None,
       createdAt = 20\<rparr>,
       \<lparr>item_id = 2, projectId = ''p'', queueId = ''q'', objectId = ''o'',
       objectType = TRACE, status = PENDING, editStartTime = None,
       editStartByUserId = None, annotatorUserId = None, completedAt = None,
       createdAt = 10\<rparr>] = xs @ \<lparr>item_id = 2, projectId = ''p'', queueId = ''q'', objectId = ''o'',
       objectType = TRACE, status = PENDING, editStartTime = None,
       editStartByUserId = None, annotatorUserId = None, completedAt = None,
       createdAt = 10\<rparr> # ys \<and>
      next_where ''q'' ''p'' (1000 - 5 * 60 * 1000) \<lparr>item_id = 2, projectId = ''p'', queueId = ''q'', objectId = ''o'',
       objectType = TRACE, status = PENDING, editStartTime = None,
       editStartByUserId = None, annotatorUserId = None, completedAt = None,
       createdAt = 10\<rparr> \<and>
      (\<forall>a \<in> set xs. next_where ''q'' ''p'' (1000 - 5 * 60 * 1000) a \<longrightarrow> 10 < createdAt a) \<and>
      (\<forall>b \<in> set ys. next_where ''q'' ''p'' (1000 - 5 * 60 * 1000) b \<longrightarrow> 10 \<le> createdAt b)) \<and>
   sorted (map createdAt (returned_items (fst (next_serial (\<lambda>_ _. None)
      [\<lparr>item_id = 1, projectId = ''p'', queueId = ''q'', objectId = ''o'',
       objectType = TRACE, status = PENDING, editStartTime = None,
       editStartByUserId = None, annotatorUserId = None, completedAt = None,
       createdAt = 20\<rparr>,
       \<lparr>item_id = 2, projectId = ''p'', queueId = ''q'', objectId = ''o'',
       objectType = TRACE, status = PENDING, editStartTime = None,
       editStartByUserId = None, annotatorUserId = None, completedAt = None,
       createdAt = 10\<rparr>]
      [\<lparr>req_queueId = ''q'', req_projectId = ''p'', req_userId = ''u1'', req_now = 1000\<rparr>,
       \<lparr>req_queueId = ''q'', req_projectId = ''p'', req_userId = ''u2'', req_now = 2000\<rparr>]))))"
proof -
  let ?rows = "[\<lparr>item_id = 1, projectId = ''p'', queueId = ''q'', objectId = ''o'',
       objectType = TRACE, status = PENDING, editStartTime = None,
       editStartByUserId = None, annotatorUserId = None, completedAt = None,
       createdAt = 20\<rparr>,
       \<lparr>item_id = 2, projectId = ''p'', queueId = ''q'', objectId = ''o'',
       objectType = TRACE, status = PENDING, editStartTime = None,
       editStartByUserId = None, annotatorUserId = None, completedAt = None,
       createdAt = 10\<rparr>]"
  let ?item = "\<lparr>item_id = 2, projectId = ''p'', queueId = ''q'', objectId = ''o'',
       objectType = TRACE, status = PENDING, editStartTime = None,
       editStartByUserId = None, annotatorUserId = None, completedAt = None,
       createdAt = 10\<rparr>"
  let ?rqs = "[\<lparr>req_queueId = ''q'', req_projectId = ''p'', req_userId = ''u1'', req_now = 1000\<rparr>,
       \<lparr>req_queueId = ''q'', req_projectId = ''p'', req_userId = ''u2'', req_now = 2000\<rparr>]"
  have h1: "queue_next (\<lambda>_ _. None) ?rows ''q'' ''p'' ''u1'' 1000 =
      Inr (Some (?item, None),
        [\<lparr>item_id = 1, projectId = ''p'', queueId = ''q'', objectId = ''o'',
       objectType = TRACE, status = PENDING, editStartTime = None,
       editStartByUserId = None, annotatorUserId = None, completedAt = None,
       createdAt = 20\<rparr>,
         \<lparr>item_id = 2, projectId = ''p'', queueId = ''q'', objectId = ''o'',
       objectType = TRACE, status = PENDING, editStartTime = Some 1000,
       editStartByUserId = Some ''u1'', annotatorUserId = None, completedAt = None,
       createdAt = 10\<rparr>])"
    by (simp add: queue_next_def next_find_def prisma_findFirst_orderBy_def next_where_def
        next_claim_def prisma_update_def next_enrich_def)
  have h2: "distinct (map item_id ?rows) \<and>
    (\<forall>r \<in> set ?rows. queueId r = ''q'' \<and> projectId r = ''p'' \<and> status r = PENDING \<longrightarrow>
       editStartTime r = None) \<and>
    (\<forall>rq \<in> set ?rqs. req_queueId rq = ''q'' \<and> req_projectId rq = ''p'' \<and>
       1000 \<le> req_now rq \<and> req_now rq \<le> 1000 + 300000)"
    by simp
  note inst = next_oldest_eligible [of "\<lambda>_ _. None" ?rows "''q''" "''p''" "''u1''" 1000 ?item None
      "[\<lparr>item_id = 1, projectId = ''p'', queueId = ''q'', objectId = ''o'',
       objectType = TRACE, status = PENDING, editStartTime = None,
       editStartByUserId = None, annotatorUserId = None, completedAt = None,
       createdAt = 20\<rparr>,
         \<lparr>item_id = 2, projectId = ''p'', queueId = ''q'', objectId = ''o'',
       objectType = TRACE, status = PENDING, editStartTime = Some 1000,
       editStartByUserId = Some ''u1'', annotatorUserId = None, completedAt = None,
       createdAt = 10\<rparr>]" ?rqs 1000]
  from inst [THEN conjunct1, THEN mp, OF h1] inst [THEN conjunct2, THEN mp, OF h2]
  show ?thesis by simp
qed

text \<open>
  Claim C4 as stated fails on a tie: of two claimable items with the same
  \<^verbatim>\<open>createdAt\<close>, \<^verbatim>\<open>next\<close> returns the one with identifier 2, which the store holds
  first, not the one with identifier 1.
\<close>

theorem next_tie_not_by_id:
  "queue_next (\<lambda>_ _. None)
     [\<lparr>item_id = 2, projectId = ''p'', queueId = ''q'', objectId = ''o'',
       objectType = TRACE, status = PENDING, editStartTime = None,
       editStartByUserId = None, annotatorUserId = None, completedAt = None,
       createdAt = 5\<rparr>,
      \<lparr>item_id = 1, projectId = ''p'', queueId = ''q'', objectId = ''o'',
       objectType = TRACE, status = PENDING, editStartTime = None,
       editStartByUserId = None, annotatorUserId = None, completedAt = None,
       createdAt = 5\<rparr>]
     ''q'' ''p'' ''u'' 1000 =
   Inr (Some (\<lparr>item_id = 2, projectId = ''p'', queueId = ''q'', objectId = ''o'',
       objectType = TRACE, status = PENDING, editStartTime = None,
       editStartByUserId = None, annotatorUserId = None, completedAt = None,
       createdAt = 5\<rparr>, None),
     [\<lparr>item_id = 2, projectId = ''p'', queueId = ''q'', objectId = ''o'',
       objectType = TRACE, status = PENDING, editStartTime = Some 1000,
       editStartByUserId = Some ''u'', annotatorUserId = None, completedAt = None,
       createdAt = 5\<rparr>,
      \<lparr>item_id = 1, projectId = ''p'', queueId = ''q'', objectId = ''o'',
       objectType = TRACE, status = PENDING, editStartTime = None,
       editStartByUserId = None, annotatorUserId = None, completedAt = None,
       createdAt = 5\<rparr>])"
  by (simp add: queue_next_def next_find_def prisma_findFirst_orderBy_def next_where_def
      next_claim_def prisma_update_def next_enrich_def)

subsection \<open>The write of the lease\<close>

text \<open>
  Claim C9: when \<^verbatim>\<open>next\<close> returns an item, the item was pending and stays so, the
  table after the call is the table before it with \<^verbatim>\<open>editStartTime\<close> set to \<open>now\<close> and
  \<^verbatim>\<open>editStartByUserId\<close> set to the caller in that one row, every other column of the row
  and every other row being as before.
\<close>

theorem next_claim_frame:
  assumes "distinct (map item_id rows)"
    and "queue_next obs rows q p u now = Inr (Some (item, tr), rows')"
  shows "status item = PENDING \<and>
         (\<exists>xs ys. rows = xs @ item # ys \<and>
            rows' = xs @ item\<lparr>editStartTime := Some now, editStartByUserId := Some u\<rparr> # ys)"
proof -
  from queue_next_cases [OF assms(1), of q p now obs u] assms(2)
  obtain it xs ys where f: "next_find rows q p now = Some it" and sp: "rows = xs @ it # ys"
    and r: "Some (item, tr) = Some (next_enrich obs p it)"
    and rows': "rows' = xs @ it\<lparr>editStartTime := Some now, editStartByUserId := Some u\<rparr> # ys"
    by auto
  from r have "it = item" by (simp add: next_enrich_def split: if_splits)
  moreover from next_find_Some [OF f] have "status it = PENDING"
    by (auto simp: next_where_def)
  ultimately show ?thesis using sp rows' by blast
qed

theorem next_claim_frame_witness:
  "\<exists>xs ys.
     [\<lparr>item_id = 1, projectId = ''p'', queueId = ''q'', objectId = ''o'',
       objectType = TRACE, status = PENDING, editStartTime = None,
       editStartByUserId = None, annotatorUserId = None, completedAt = None,
       createdAt = 5\<rparr>,
      \<lparr>item_id = 2, projectId = ''p'', queueId = ''q'', objectId = ''o2'',
       objectType = TRACE, status = PENDING, editStartTime = None,
       editStartByUserId = None, annotatorUserId = None, completedAt = None,
       createdAt = 7\<rparr>] =
       xs @ \<lparr>item_id = 1, projectId = ''p'', queueId = ''q'', objectId = ''o'',
       objectType = TRACE, status = PENDING, editStartTime = None,
       editStartByUserId = None, annotatorUserId = None, completedAt = None,
       createdAt = 5\<rparr> # ys \<and>
     [\<lparr>item_id = 1, projectId = ''p'', queueId = ''q'', objectId = ''o'',
       objectType = TRACE, status = PENDING, editStartTime = Some 1000,
       editStartByUserId = Some ''u'', annotatorUserId = None, completedAt = None,
       createdAt = 5\<rparr>,
      \<lparr>item_id = 2, projectId = ''p'', queueId = ''q'', objectId = ''o2'',
       objectType = TRACE, status = PENDING, editStartTime = None,
       editStartByUserId = None, annotatorUserId = None, completedAt = None,
       createdAt = 7\<rparr>] =
       xs @ \<lparr>item_id = 1, projectId = ''p'', queueId = ''q'', objectId = ''o'',
       objectType = TRACE, status = PENDING, editStartTime = None,
       editStartByUserId = None, annotatorUserId = None, completedAt = None,
       createdAt = 5\<rparr>\<lparr>editStartTime := Some 1000, editStartByUserId := Some ''u''\<rparr> # ys"
proof -
  let ?rows = "[\<lparr>item_id = 1, projectId = ''p'', queueId = ''q'', objectId = ''o'',
       objectType = TRACE, status = PENDING, editStartTime = None,
       editStartByUserId = None, annotatorUserId = None, completedAt = None,
       createdAt = 5\<rparr>,
      \<lparr>item_id = 2, projectId = ''p'', queueId = ''q'', objectId = ''o2'',
       objectType = TRACE, status = PENDING, editStartTime = None,
       editStartByUserId = None, annotatorUserId = None, completedAt = None,
       createdAt = 7\<rparr>]"
  have h1: "distinct (map item_id ?rows)" by simp
  have h2: "queue_next (\<lambda>_ _. None) ?rows ''q'' ''p'' ''u'' 1000 =
      Inr (Some (\<lparr>item_id = 1, projectId = ''p'', queueId = ''q'', objectId = ''o'',
       objectType = TRACE, status = PENDING, editStartTime = None,
       editStartByUserId = None, annotatorUserId = None, completedAt = None,
       createdAt = 5\<rparr>, None),
        [\<lparr>item_id = 1, projectId = ''p'', queueId = ''q'', objectId = ''o'',
       objectType = TRACE, status = PENDING, editStartTime = Some 1000,
       editStartByUserId = Some ''u'', annotatorUserId = None, completedAt = None,
       createdAt = 5\<rparr>,
         \<lparr>item_id = 2, projectId = ''p'', queueId = ''q'', objectId = ''o2'',
       objectType = TRACE, status = PENDING, editStartTime = None,
       editStartByUserId = None, annotatorUserId = None, completedAt = None,
       createdAt = 7\<rparr>])"
    by (simp add: queue_next_def next_find_def prisma_findFirst_orderBy_def next_where_def
        next_claim_def prisma_update_def next_enrich_def)
  from next_claim_frame [OF h1 h2] show ?thesis by (rule conjunct2)
qed

subsection \<open>Calls of \<^verbatim>\<open>next\<close> one after the other, and overlapping\<close>

text \<open>
  Two steps of one call, with no other call in between, are the procedure.
\<close>

lemma next_step_twice:
  assumes "next_step obs rq AtFind rows = (pc1, rows1)"
    and "next_step obs rq pc1 rows1 = (pc2, rows2)"
  shows "case queue_next obs rows (req_queueId rq) (req_projectId rq) (req_userId rq) (req_now rq) of
           Inl e \<Rightarrow> pc2 = Finished (Inl e) \<and> rows2 = rows
         | Inr (r, rows') \<Rightarrow> pc2 = Finished (Inr r) \<and> rows2 = rows'"
proof (cases "next_find rows (req_queueId rq) (req_projectId rq) (req_now rq)")
  case None
  with assms show ?thesis by (auto simp: queue_next_def)
next
  case (Some item)
  with assms(1) have "pc1 = AtUpdate item" "rows1 = rows" by simp_all
  with assms(2) Some show ?thesis
    by (cases "next_claim rows item (req_projectId rq) (req_userId rq) (req_now rq)")
       (auto simp: queue_next_def)
qed

lemma next_serial_general:
  assumes "distinct (map item_id rows)"
    and "length rqs \<le> length (filter (\<lambda>r. queueId r = q \<and> projectId r = p \<and>
           status r = PENDING \<and> editStartTime r = None) rows)"
    and "\<forall>rq \<in> set rqs. req_queueId rq = q \<and> req_projectId rq = p \<and>
           T \<le> req_now rq \<and> req_now rq \<le> T + 300000"
  shows "length (returned_items (fst (next_serial obs rows rqs))) = length rqs \<and>
         (\<forall>it \<in> set (returned_items (fst (next_serial obs rows rqs))).
            item_id it \<notin> item_id ` {r \<in> set rows. \<exists>t. editStartTime r = Some t \<and> T \<le> t}) \<and>
         distinct (map item_id (returned_items (fst (next_serial obs rows rqs))))"
  using assms
proof (induction rqs arbitrary: rows)
  case Nil
  then show ?case by simp
next
  case (Cons rq rqs)
  let ?U = "\<lambda>r. queueId r = q \<and> projectId r = p \<and> status r = PENDING \<and> editStartTime r = None"
  let ?L = "\<lambda>rows. item_id ` {r \<in> set rows. \<exists>t. editStartTime r = Some t \<and> T \<le> t}"
  let ?now = "req_now rq"
  from Cons.prems(3) have rq: "req_queueId rq = q" "req_projectId rq = p"
    "T \<le> ?now" "?now \<le> T + 300000" by simp_all
  from Cons.prems(2) obtain x xs0 where "filter ?U rows = x # xs0"
    by (cases "filter ?U rows") simp_all
  then have "x \<in> set (filter ?U rows)" by simp
  then have "x \<in> set rows" "?U x" by simp_all
  then have "\<exists>r \<in> set rows. next_where q p (?now - 5 * 60 * 1000) r"
    by (auto simp: next_where_def)
  with next_serial_claims [OF Cons.prems(1), of rq obs rqs] rq(1,2)
  obtain item xs ys where sp: "rows = xs @ item # ys"
    and wh: "next_where q p (?now - 5 * 60 * 1000) item"
    and ser: "next_serial obs rows (rq # rqs) =
             (Inr (Some (next_enrich obs p item)) #
                fst (next_serial obs
                       (xs @ item\<lparr>editStartTime := Some ?now,
                                   editStartByUserId := Some (req_userId rq)\<rparr> # ys) rqs),
              snd (next_serial obs
                     (xs @ item\<lparr>editStartTime := Some ?now,
                                 editStartByUserId := Some (req_userId rq)\<rparr> # ys) rqs))"
    by auto
  let ?item' = "item\<lparr>editStartTime := Some ?now, editStartByUserId := Some (req_userId rq)\<rparr>"
  let ?rows' = "xs @ ?item' # ys"
  have ret: "returned_items (fst (next_serial obs rows (rq # rqs))) =
      item # returned_items (fst (next_serial obs ?rows' rqs))"
    unfolding ser fst_conv by (rule returned_items_enrich)
  have others: "\<forall>r \<in> set xs \<union> set ys. item_id r \<noteq> item_id item"
    using Cons.prems(1) sp by (auto simp: image_iff)
  have not_leased: "\<not> (\<exists>t. editStartTime item = Some t \<and> T \<le> t)"
    using wh rq(4) by (auto simp: next_where_def)
  have head_fresh: "item_id item \<notin> ?L rows"
  proof
    assume "item_id item \<in> ?L rows"
    then obtain r where r: "r \<in> set rows" "\<exists>t. editStartTime r = Some t \<and> T \<le> t"
      "item_id r = item_id item" by auto
    with others sp have "r = item" by auto
    with r(2) not_leased show False by simp
  qed
  have d': "distinct (map item_id ?rows')"
    using Cons.prems(1) sp by simp
  have "length (filter ?U rows) \<le> Suc (length (filter ?U ?rows'))"
    using sp by simp
  with Cons.prems(2) have len': "length rqs \<le> length (filter ?U ?rows')"
    by simp
  from Cons.prems(3) have win': "\<forall>rq \<in> set rqs. req_queueId rq = q \<and> req_projectId rq = p \<and>
           T \<le> req_now rq \<and> req_now rq \<le> T + 300000" by simp
  from Cons.IH [OF d' len' win']
  have ih: "length (returned_items (fst (next_serial obs ?rows' rqs))) = length rqs"
    "\<forall>it \<in> set (returned_items (fst (next_serial obs ?rows' rqs))). item_id it \<notin> ?L ?rows'"
    "distinct (map item_id (returned_items (fst (next_serial obs ?rows' rqs))))"
    by blast+
  have sub: "?L rows \<subseteq> ?L ?rows'"
  proof
    fix i assume "i \<in> ?L rows"
    then obtain r where r: "r \<in> set rows" "\<exists>t. editStartTime r = Some t \<and> T \<le> t"
      "i = item_id r" by auto
    from r(1,2) not_leased sp have "r \<in> set xs \<union> set ys" by auto
    then have "r \<in> set ?rows'" by auto
    with r(2,3) show "i \<in> ?L ?rows'" by blast
  qed
  have "?item' \<in> set ?rows'" by simp
  moreover have "\<exists>t. editStartTime ?item' = Some t \<and> T \<le> t" using rq(3) by simp
  ultimately have "item_id ?item' \<in> ?L ?rows'" by blast
  then have head_in: "item_id item \<in> ?L ?rows'" by simp
  have tail_ok: "\<forall>it \<in> set (returned_items (fst (next_serial obs ?rows' rqs))).
        item_id it \<notin> ?L rows \<and> item_id it \<noteq> item_id item"
  proof
    fix it assume "it \<in> set (returned_items (fst (next_serial obs ?rows' rqs)))"
    with ih(2) have i: "item_id it \<notin> ?L ?rows'" by blast
    from i sub have "item_id it \<notin> ?L rows" by blast
    moreover have "item_id it \<noteq> item_id item"
    proof
      assume "item_id it = item_id item"
      with head_in i show False by simp
    qed
    ultimately show "item_id it \<notin> ?L rows \<and> item_id it \<noteq> item_id item"
      by (rule conjI)
  qed
  have c1: "length (returned_items (fst (next_serial obs rows (rq # rqs)))) = length (rq # rqs)"
    unfolding ret using ih(1) by simp
  have c2: "\<forall>it \<in> set (returned_items (fst (next_serial obs rows (rq # rqs)))).
            item_id it \<notin> ?L rows"
    unfolding ret using head_fresh tail_ok by simp
  have "item_id item \<notin> set (map item_id (returned_items (fst (next_serial obs ?rows' rqs))))"
  proof
    assume "item_id item \<in> set (map item_id (returned_items (fst (next_serial obs ?rows' rqs))))"
    then obtain it where "it \<in> set (returned_items (fst (next_serial obs ?rows' rqs)))"
      and "item_id it = item_id item"
      unfolding set_map by (elim imageE) simp
    with tail_ok show False by blast
  qed
  then have c3: "distinct (map item_id (returned_items (fst (next_serial obs rows (rq # rqs)))))"
    unfolding ret using ih(3) by simp
  from c1 c2 c3 show ?case by blast
qed

text \<open>
  Claim C1, as the code has it. On a table with at least as many pending, unleased items in
  the queue as there are calls, calls of \<^verbatim>\<open>next\<close> that run one after the other, all
  within five minutes, each return an item, and no item is returned twice.
\<close>

theorem next_serial_distinct_items:
  assumes "distinct (map item_id rows)"
    and "length rqs \<le> length (filter (\<lambda>r. queueId r = q \<and> projectId r = p \<and>
           status r = PENDING \<and> editStartTime r = None) rows)"
    and "\<forall>rq \<in> set rqs. req_queueId rq = q \<and> req_projectId rq = p \<and>
           T \<le> req_now rq \<and> req_now rq \<le> T + 300000"
  shows "length (returned_items (fst (next_serial obs rows rqs))) = length rqs \<and>
         distinct (map item_id (returned_items (fst (next_serial obs rows rqs))))"
  using next_serial_general [OF assms, of obs] by blast

theorem next_serial_distinct_items_witness:
  "length (returned_items (fst (next_serial (\<lambda>_ _. None)
      [\<lparr>item_id = 1, projectId = ''p'', queueId = ''q'', objectId = ''o'',
       objectType = TRACE, status = PENDING, editStartTime = None,
       editStartByUserId = None, annotatorUserId = None, completedAt = None,
       createdAt = 10\<rparr>,
       \<lparr>item_id = 2, projectId = ''p'', queueId = ''q'', objectId = ''o'',
       objectType = TRACE, status = PENDING, editStartTime = None,
       editStartByUserId = None, annotatorUserId = None, completedAt = None,
       createdAt = 20\<rparr>]
      [\<lparr>req_queueId = ''q'', req_projectId = ''p'', req_userId = ''u1'', req_now = 1000\<rparr>,
       \<lparr>req_queueId = ''q'', req_projectId = ''p'', req_userId = ''u2'', req_now = 2000\<rparr>]))) = length
      [\<lparr>req_queueId = ''q'', req_projectId = ''p'', req_userId = ''u1'', req_now = 1000\<rparr>,
       \<lparr>req_queueId = ''q'', req_projectId = ''p'', req_userId = ''u2'', req_now = 2000\<rparr>] \<and>
   distinct (map item_id (returned_items (fst (next_serial (\<lambda>_ _. None)
      [\<lparr>item_id = 1, projectId = ''p'', queueId = ''q'', objectId = ''o'',
       objectType = TRACE, status = PENDING, editStartTime = None,
       editStartByUserId = None, annotatorUserId = None, completedAt = None,
       createdAt = 10\<rparr>,
       \<lparr>item_id = 2, projectId = ''p'', queueId = ''q'', objectId = ''o'',
       objectType = TRACE, status = PENDING, editStartTime = None,
       editStartByUserId = None, annotatorUserId = None, completedAt = None,
       createdAt = 20\<rparr>]
      [\<lparr>req_queueId = ''q'', req_projectId = ''p'', req_userId = ''u1'', req_now = 1000\<rparr>,
       \<lparr>req_queueId = ''q'', req_projectId = ''p'', req_userId = ''u2'', req_now = 2000\<rparr>]))))"
proof -
  let ?rows = "[\<lparr>item_id = 1, projectId = ''p'', queueId = ''q'', objectId = ''o'',
       objectType = TRACE, status = PENDING, editStartTime = None,
       editStartByUserId = None, annotatorUserId = None, completedAt = None,
       createdAt = 10\<rparr>,
       \<lparr>item_id = 2, projectId = ''p'', queueId = ''q'', objectId = ''o'',
       objectType = TRACE, status = PENDING, editStartTime = None,
       editStartByUserId = None, annotatorUserId = None, completedAt = None,
       createdAt = 20\<rparr>]"
  let ?rqs = "[\<lparr>req_queueId = ''q'', req_projectId = ''p'', req_userId = ''u1'', req_now = 1000\<rparr>,
       \<lparr>req_queueId = ''q'', req_projectId = ''p'', req_userId = ''u2'', req_now = 2000\<rparr>]"
  have h1: "distinct (map item_id ?rows)" by simp
  have h2: "length ?rqs \<le> length (filter (\<lambda>r. queueId r = ''q'' \<and> projectId r = ''p'' \<and>
           status r = PENDING \<and> editStartTime r = None) ?rows)" by simp
  have h3: "\<forall>rq \<in> set ?rqs. req_queueId rq = ''q'' \<and> req_projectId rq = ''p'' \<and>
           1000 \<le> req_now rq \<and> req_now rq \<le> 1000 + 300000" by simp
  from next_serial_distinct_items [OF h1 h2 h3] show ?thesis .
qed

text \<open>
  Claim C1 as stated fails for calls that overlap: the read and the write are two store
  operations. With two pending, unleased items in the queue and two calls, the schedule
  read, read, write, write hands the item with identifier 1 to both callers.
\<close>

theorem next_interleaved_same_item:
  "next_run (\<lambda>_ _. None) [0, 1, 0, 1]
     [(\<lparr>req_queueId = ''q'', req_projectId = ''p'', req_userId = ''u1'', req_now = 1000\<rparr>, AtFind),
      (\<lparr>req_queueId = ''q'', req_projectId = ''p'', req_userId = ''u2'', req_now = 1001\<rparr>, AtFind)]
     [\<lparr>item_id = 1, projectId = ''p'', queueId = ''q'', objectId = ''o'',
       objectType = TRACE, status = PENDING, editStartTime = None,
       editStartByUserId = None, annotatorUserId = None, completedAt = None,
       createdAt = 10\<rparr>,
      \<lparr>item_id = 2, projectId = ''p'', queueId = ''q'', objectId = ''o'',
       objectType = TRACE, status = PENDING, editStartTime = None,
       editStartByUserId = None, annotatorUserId = None, completedAt = None,
       createdAt = 20\<rparr>] =
   ([(\<lparr>req_queueId = ''q'', req_projectId = ''p'', req_userId = ''u1'', req_now = 1000\<rparr>,
      Finished (Inr (Some (\<lparr>item_id = 1, projectId = ''p'', queueId = ''q'', objectId = ''o'',
       objectType = TRACE, status = PENDING, editStartTime = None,
       editStartByUserId = None, annotatorUserId = None, completedAt = None,
       createdAt = 10\<rparr>, None)))),
     (\<lparr>req_queueId = ''q'', req_projectId = ''p'', req_userId = ''u2'', req_now = 1001\<rparr>,
      Finished (Inr (Some (\<lparr>item_id = 1, projectId = ''p'', queueId = ''q'', objectId = ''o'',
       objectType = TRACE, status = PENDING, editStartTime = None,
       editStartByUserId = None, annotatorUserId = None, completedAt = None,
       createdAt = 10\<rparr>, None))))],
    [\<lparr>item_id = 1, projectId = ''p'', queueId = ''q'', objectId = ''o'',
       objectType = TRACE, status = PENDING, editStartTime = Some 1001,
       editStartByUserId = Some ''u2'', annotatorUserId = None, completedAt = None,
       createdAt = 10\<rparr>,
     \<lparr>item_id = 2, projectId = ''p'', queueId = ''q'', objectId = ''o'',
       objectType = TRACE, status = PENDING, editStartTime = None,
       editStartByUserId = None, annotatorUserId = None, completedAt = None,
       createdAt = 20\<rparr>])"
  by (simp add: next_find_def prisma_findFirst_orderBy_def next_where_def
      next_claim_def prisma_update_def next_enrich_def)

subsection \<open>Completion\<close>

lemma updateMany_twice:
  assumes "\<And>r. wh (d1 r) = wh r" and "\<And>r. wh r \<Longrightarrow> d2 (d1 r) = d2 r"
  shows "prisma_updateMany wh d2 (snd (prisma_updateMany wh d1 rows)) =
           (fst (prisma_updateMany wh d1 rows), snd (prisma_updateMany wh d2 rows))"
proof -
  have "length (filter wh (map (\<lambda>r. if wh r then d1 r else r) rows)) = length (filter wh rows)
      \<and> map (\<lambda>r. if wh r then d2 r else r) (map (\<lambda>r. if wh r then d1 r else r) rows)
          = map (\<lambda>r. if wh r then d2 r else r) rows"
    by (induction rows) (simp_all add: assms)
  then show ?thesis
    by (simp add: prisma_updateMany_def)
qed

lemma complete_twice:
  "queueItem_complete (snd (queueItem_complete rows p q oid oty u1 t1)) p q oid oty u2 t2 =
     (fst (queueItem_complete rows p q oid oty u1 t1),
      snd (queueItem_complete rows p q oid oty u2 t2))"
  unfolding queueItem_complete_def by (rule updateMany_twice) simp_all

lemma updateMany_written:
  assumes "r \<in> set (snd (prisma_updateMany wh d rows))" and "wh r" and "\<And>x. wh (d x) = wh x"
  shows "\<exists>x \<in> set rows. r = d x"
proof -
  from assms(1) obtain x where x: "x \<in> set rows" and r: "r = (if wh x then d x else x)"
    by (auto simp: prisma_updateMany_def)
  show ?thesis
  proof (cases "wh x")
    case True
    with x r show ?thesis by auto
  next
    case False
    with r assms(2) show ?thesis by simp
  qed
qed

lemma complete_rows:
  assumes "r \<in> set (snd (queueItem_complete rows p q oid oty u t))"
    and "queueId r = q \<and> projectId r = p \<and> objectId r = oid \<and> objectType r = oty"
  shows "status r = COMPLETED \<and> completedAt r = Some t \<and> annotatorUserId r = Some u"
proof -
  have "\<exists>x \<in> set rows. r = x\<lparr>status := COMPLETED, completedAt := Some t, annotatorUserId := Some u\<rparr>"
    using assms(1) unfolding queueItem_complete_def
    by (rule updateMany_written) (simp_all add: assms(2))
  then show ?thesis by auto
qed

text \<open>
  Claim C2, as the code has it. The \<^verbatim>\<open>where\<close> clause of \<^verbatim>\<open>complete\<close> does not look at
  the status, so a second call for the same queue and object matches the same rows as the
  first: it returns the same count, and leaves the table as if only the second call had
  run, each matching item completed with the second call's time and user.
\<close>

theorem complete_twice_last_stamps:
  assumes "queueItem_complete rows p q oid oty u1 t1 = (n1, rows1)"
    and "queueItem_complete rows1 p q oid oty u2 t2 = (n2, rows2)"
  shows "n2 = n1 \<and> rows2 = snd (queueItem_complete rows p q oid oty u2 t2) \<and>
         (\<forall>r \<in> set rows2.
            queueId r = q \<and> projectId r = p \<and> objectId r = oid \<and> objectType r = oty \<longrightarrow>
            status r = COMPLETED \<and> completedAt r = Some t2 \<and> annotatorUserId r = Some u2)"
proof -
  from complete_twice [of rows p q oid oty u1 t1 u2 t2] assms
  have eq: "n2 = n1" "rows2 = snd (queueItem_complete rows p q oid oty u2 t2)"
    by simp_all
  have "\<forall>r \<in> set rows2.
            queueId r = q \<and> projectId r = p \<and> objectId r = oid \<and> objectType r = oty \<longrightarrow>
            status r = COMPLETED \<and> completedAt r = Some t2 \<and> annotatorUserId r = Some u2"
    using complete_rows [of _ rows p q oid oty u2 t2] eq(2) by blast
  with eq show ?thesis by simp
qed

theorem complete_twice_last_stamps_witness:
  "(1::nat) = 1 \<and>
   [\<lparr>item_id = 1, projectId = ''p'', queueId = ''q'', objectId = ''o'',
       objectType = TRACE, status = COMPLETED, editStartTime = None,
       editStartByUserId = None, annotatorUserId = Some ''u2'', completedAt = Some 200,
       createdAt = 5\<rparr>] =
     snd (queueItem_complete
       [\<lparr>item_id = 1, projectId = ''p'', queueId = ''q'', objectId = ''o'',
       objectType = TRACE, status = PENDING, editStartTime = None,
       editStartByUserId = None, annotatorUserId = None, completedAt = None,
       createdAt = 5\<rparr>]
       ''p'' ''q'' ''o'' TRACE ''u2'' 200) \<and>
   status \<lparr>item_id = 1, projectId = ''p'', queueId = ''q'', objectId = ''o'',
       objectType = TRACE, status = COMPLETED, editStartTime = None,
       editStartByUserId = None, annotatorUserId = Some ''u2'', completedAt = Some 200,
       createdAt = 5\<rparr> = COMPLETED \<and>
   completedAt \<lparr>item_id = 1, projectId = ''p'', queueId = ''q'', objectId = ''o'',
       objectType = TRACE, status = COMPLETED, editStartTime = None,
       editStartByUserId = None, annotatorUserId = Some ''u2'', completedAt = Some 200,
       createdAt = 5\<rparr> = Some 200 \<and>
   annotatorUserId \<lparr>item_id = 1, projectId = ''p'', queueId = ''q'', objectId = ''o'',
       objectType = TRACE, status = COMPLETED, editStartTime = None,
       editStartByUserId = None, annotatorUserId = Some ''u2'', completedAt = Some 200,
       createdAt = 5\<rparr> = Some ''u2''"
proof -
  have h1: "queueItem_complete
       [\<lparr>item_id = 1, projectId = ''p'', queueId = ''q'', objectId = ''o'',
       objectType = TRACE, status = PENDING, editStartTime = None,
       editStartByUserId = None, annotatorUserId = None, completedAt = None,
       createdAt = 5\<rparr>]
       ''p'' ''q'' ''o'' TRACE ''u1'' 100 =
     (1, [\<lparr>item_id = 1, projectId = ''p'', queueId = ''q'', objectId = ''o'',
       objectType = TRACE, status = COMPLETED, editStartTime = None,
       editStartByUserId = None, annotatorUserId = Some ''u1'', completedAt = Some 100,
       createdAt = 5\<rparr>])"
    by (simp add: queueItem_complete_def prisma_updateMany_def)
  have h2: "queueItem_complete
       [\<lparr>item_id = 1, projectId = ''p'', queueId = ''q'', objectId = ''o'',
       objectType = TRACE, status = COMPLETED, editStartTime = None,
       editStartByUserId = None, annotatorUserId = Some ''u1'', completedAt = Some 100,
       createdAt = 5\<rparr>]
       ''p'' ''q'' ''o'' TRACE ''u2'' 200 =
     (1, [\<lparr>item_id = 1, projectId = ''p'', queueId = ''q'', objectId = ''o'',
       objectType = TRACE, status = COMPLETED, editStartTime = None,
       editStartByUserId = None, annotatorUserId = Some ''u2'', completedAt = Some 200,
       createdAt = 5\<rparr>])"
    by (simp add: queueItem_complete_def prisma_updateMany_def)
  from complete_twice_last_stamps [OF h1 h2] show ?thesis by simp
qed

text \<open>
  Claim C2 as stated fails: after a first completion by \<open>u1\<close> at time 100, a second one by
  \<open>u2\<close> at time 200 returns the count 1, not 0, and the item carries the stamps of the
  second call.
\<close>

theorem complete_twice_overwrites:
  "queueItem_complete
     (snd (queueItem_complete
        [\<lparr>item_id = 1, projectId = ''p'', queueId = ''q'', objectId = ''o'',
       objectType = TRACE, status = PENDING, editStartTime = None,
       editStartByUserId = None, annotatorUserId = None, completedAt = None,
       createdAt = 5\<rparr>]
        ''p'' ''q'' ''o'' TRACE ''u1'' 100))
     ''p'' ''q'' ''o'' TRACE ''u2'' 200 =
   (1, [\<lparr>item_id = 1, projectId = ''p'', queueId = ''q'', objectId = ''o'',
       objectType = TRACE, status = COMPLETED, editStartTime = None,
       editStartByUserId = None, annotatorUserId = Some ''u2'', completedAt = Some 200,
       createdAt = 5\<rparr>])"
  by (simp add: queueItem_complete_def prisma_updateMany_def)

subsection \<open>No matching row\<close>

text \<open>
  Claim C8: when every item of the queue is completed or holds a lease no older than five
  minutes (in particular when the queue has no item), \<^verbatim>\<open>next\<close> returns null as an
  ordinary result and leaves the table as it was; and \<^verbatim>\<open>complete\<close>, which cannot throw,
  returns the count 0 and leaves the table as it was when no item matches the queue and the
  object.
\<close>

theorem no_match_is_total:
  "((\<forall>r \<in> set rows. queueId r = q \<and> projectId r = p \<longrightarrow>
        status r = COMPLETED \<or> (\<exists>t. editStartTime r = Some t \<and> now - t \<le> 300000)) \<longrightarrow>
      queue_next obs rows q p u now = Inr (None, rows)) \<and>
   ((\<forall>r \<in> set rows. \<not> (queueId r = q \<and> projectId r = p \<and> objectId r = oid \<and> objectType r = oty)) \<longrightarrow>
      queueItem_complete rows p q oid oty u now = (0, rows))"
proof (intro conjI impI)
  assume h: "\<forall>r \<in> set rows. queueId r = q \<and> projectId r = p \<longrightarrow>
        status r = COMPLETED \<or> (\<exists>t. editStartTime r = Some t \<and> now - t \<le> 300000)"
  have "\<forall>r \<in> set rows. \<not> next_where q p (now - 5 * 60 * 1000) r"
  proof
    fix r assume "r \<in> set rows"
    with h show "\<not> next_where q p (now - 5 * 60 * 1000) r"
      by (fastforce simp: next_where_def)
  qed
  then have "next_find rows q p now = None" by (simp add: next_find_None)
  then show "queue_next obs rows q p u now = Inr (None, rows)"
    by (simp add: queue_next_def)
next
  assume h: "\<forall>r \<in> set rows. \<not> (queueId r = q \<and> projectId r = p \<and> objectId r = oid \<and> objectType r = oty)"
  then have "filter (\<lambda>r. queueId r = q \<and> projectId r = p \<and> objectId r = oid \<and> objectType r = oty) rows = []"
    by (simp add: filter_empty_conv)
  moreover from h have "map (\<lambda>r. if queueId r = q \<and> projectId r = p \<and> objectId r = oid \<and> objectType r = oty
      then r\<lparr>status := COMPLETED, completedAt := Some now, annotatorUserId := Some u\<rparr> else r) rows = rows"
    by (intro map_idI) auto
  ultimately show "queueItem_complete rows p q oid oty u now = (0, rows)"
    by (simp add: queueItem_complete_def prisma_updateMany_def)
qed

theorem no_match_is_total_witness:
  "queue_next (\<lambda>_ _. None)
     [\<lparr>item_id = 1, projectId = ''p'', queueId = ''q'', objectId = ''o'',
       objectType = TRACE, status = COMPLETED, editStartTime = None,
       editStartByUserId = None, annotatorUserId = Some ''u1'', completedAt = Some 100,
       createdAt = 5\<rparr>,
      \<lparr>item_id = 2, projectId = ''p'', queueId = ''q'', objectId = ''o2'',
       objectType = TRACE, status = PENDING, editStartTime = Some 900,
       editStartByUserId = Some ''u3'', annotatorUserId = None, completedAt = None,
       createdAt = 7\<rparr>]
     ''q'' ''p'' ''u'' 1000 =
   Inr (None,
     [\<lparr>item_id = 1, projectId = ''p'', queueId = ''q'', objectId = ''o'',
       objectType = TRACE, status = COMPLETED, editStartTime = None,
       editStartByUserId = None, annotatorUserId = Some ''u1'', completedAt = Some 100,
       createdAt = 5\<rparr>,
      \<lparr>item_id = 2, projectId = ''p'', queueId = ''q'', objectId = ''o2'',
       objectType = TRACE, status = PENDING, editStartTime = Some 900,
       editStartByUserId = Some ''u3'', annotatorUserId = None, completedAt = None,
       createdAt = 7\<rparr>]) \<and>
   queueItem_complete
     [\<lparr>item_id = 1, projectId = ''p'', queueId = ''q'', objectId = ''o'',
       objectType = TRACE, status = COMPLETED, editStartTime = None,
       editStartByUserId = None, annotatorUserId = Some ''u1'', completedAt = Some 100,
       createdAt = 5\<rparr>,
      \<lparr>item_id = 2, projectId = ''p'', queueId = ''q'', objectId = ''o2'',
       objectType = TRACE, status = PENDING, editStartTime = Some 900,
       editStartByUserId = Some ''u3'', annotatorUserId = None, completedAt = None,
       createdAt = 7\<rparr>]
     ''p'' ''q'' ''other'' TRACE ''u'' 1000 =
   (0,
     [\<lparr>item_id = 1, projectId = ''p'', queueId = ''q'', objectId = ''o'',
       objectType = TRACE, status = COMPLETED, editStartTime = None,
       editStartByUserId = None, annotatorUserId = Some ''u1'', completedAt = Some 100,
       createdAt = 5\<rparr>,
      \<lparr>item_id = 2, projectId = ''p'', queueId = ''q'', objectId = ''o2'',
       objectType = TRACE, status = PENDING, editStartTime = Some 900,
       editStartByUserId = Some ''u3'', annotatorUserId = None, completedAt = None,
       createdAt = 7\<rparr>])"
proof -
  let ?rows = "[\<lparr>item_id = 1, projectId = ''p'', queueId = ''q'', objectId = ''o'',
       objectType = TRACE, status = COMPLETED, editStartTime = None,
       editStartByUserId = None, annotatorUserId = Some ''u1'', completedAt = Some 100,
       createdAt = 5\<rparr>,
      \<lparr>item_id = 2, projectId = ''p'', queueId = ''q'', objectId = ''o2'',
       objectType = TRACE, status = PENDING, editStartTime = Some 900,
       editStartByUserId = Some ''u3'', annotatorUserId = None, completedAt = None,
       createdAt = 7\<rparr>]"
  have h1: "\<forall>r \<in> set ?rows. queueId r = ''q'' \<and> projectId r = ''p'' \<longrightarrow>
        status r = COMPLETED \<or> (\<exists>t. editStartTime r = Some t \<and> 1000 - t \<le> 300000)"
    by simp
  have h2: "\<forall>r \<in> set ?rows. \<not> (queueId r = ''q'' \<and> projectId r = ''p'' \<and>
        objectId r = ''other'' \<and> objectType r = TRACE)"
    by simp
  note inst = no_match_is_total [of ?rows "''q''" "''p''" 1000 "\<lambda>_ _. None" "''u''" "''other''" TRACE]
  from inst [THEN conjunct1, THEN mp, OF h1] inst [THEN conjunct2, THEN mp, OF h2]
  show ?thesis by (rule conjI)
qed

subsection \<open>Bulk enrollment\<close>

text \<open>
  What \<^verbatim>\<open>createMany\<close> of the store does with a batch, whatever the unique constraints: it
  appends pending rows for a subsequence of the batch, and each entry of the batch is either
  inserted or left out because a row then in the table excludes it. With no constraint in
  the way every entry is inserted, in order.
\<close>

lemma createMany_appends:
  "prisma_createMany_skipDuplicates uq ds now rows = (n, rows') \<Longrightarrow>
   \<exists>added. rows' = rows @ added \<and> length added = n \<and>
     subseq (map (\<lambda>r. (projectId r, queueId r, objectId r, objectType r)) added) ds \<and>
     (\<forall>a \<in> set added. status a = PENDING \<and> editStartTime a = None \<and>
        editStartByUserId a = None \<and> annotatorUserId a = None \<and> completedAt a = None \<and>
        createdAt a = now)"
proof (induction ds arbitrary: rows n rows')
  case Nil
  then show ?case by simp
next
  case (Cons d ds)
  let ?r = "new_item rows d now"
  show ?case
  proof (cases "\<exists>x \<in> set rows. uq x ?r")
    case True
    with Cons.prems have "prisma_createMany_skipDuplicates uq ds now rows = (n, rows')"
      by (simp add: Let_def)
    from Cons.IH [OF this] show ?thesis
      by auto
  next
    case False
    obtain m rows2 where
      rec0: "prisma_createMany_skipDuplicates uq ds now (rows @ [?r]) = (m, rows2)"
      by (cases "prisma_createMany_skipDuplicates uq ds now (rows @ [?r])")
    from False have "prisma_createMany_skipDuplicates uq (d # ds) now rows = (Suc m, rows2)"
      by (simp add: Let_def rec0)
    with Cons.prems have n: "n = Suc m" and "rows2 = rows'" by simp_all
    with rec0 have rec: "prisma_createMany_skipDuplicates uq ds now (rows @ [?r]) = (m, rows')"
      by simp
    from Cons.IH [OF rec] obtain added where
      a: "rows' = (rows @ [?r]) @ added" "length added = m"
      "subseq (map (\<lambda>r. (projectId r, queueId r, objectId r, objectType r)) added) ds"
      "\<forall>a \<in> set added. status a = PENDING \<and> editStartTime a = None \<and>
        editStartByUserId a = None \<and> annotatorUserId a = None \<and> completedAt a = None \<and>
        createdAt a = now"
      by blast
    have d: "(projectId ?r, queueId ?r, objectId ?r, objectType ?r) = d"
      by (cases d) (simp add: new_item_def)
    have "rows' = rows @ (?r # added)" using a(1) by simp
    moreover have "length (?r # added) = n" using a(2) n by simp
    moreover have "subseq (map (\<lambda>r. (projectId r, queueId r, objectId r, objectType r)) (?r # added)) (d # ds)"
      using a(3) d by simp
    moreover have "\<forall>a \<in> set (?r # added). status a = PENDING \<and> editStartTime a = None \<and>
        editStartByUserId a = None \<and> annotatorUserId a = None \<and> completedAt a = None \<and>
        createdAt a = now"
      using a(4) by (cases d) (simp add: new_item_def)
    ultimately show ?thesis by blast
  qed
qed

lemma createMany_granted:
  "queueItem_createMany uq None rows p q oids oty now =
     Inr (\<lparr>count = fst (prisma_createMany_skipDuplicates uq
                          (map (\<lambda>objectId. (p, q, objectId, oty)) (take MAX_ITEMS oids)) now rows),
           totalRequested = length oids, created = min (length oids) MAX_ITEMS\<rparr>,
          snd (prisma_createMany_skipDuplicates uq
                 (map (\<lambda>objectId. (p, q, objectId, oty)) (take MAX_ITEMS oids)) now rows))"
  by (simp add: queueItem_createMany_def Let_def split: prod.splits)

lemma createMany_attempts:
  "prisma_createMany_skipDuplicates uq ds now rows = (n, rows') \<Longrightarrow>
   \<exists>added. rows' = rows @ added \<and>
     (\<forall>d \<in> set ds.
        (\<exists>a \<in> set added. (projectId a, queueId a, objectId a, objectType a) = d) \<or>
        (\<exists>k \<le> length added. \<exists>x \<in> set (rows @ take k added).
            uq x (new_item (rows @ take k added) d now)))"
proof (induction ds arbitrary: rows n rows')
  case Nil
  then show ?case by simp
next
  case (Cons d ds)
  let ?r = "new_item rows d now"
  show ?case
  proof (cases "\<exists>x \<in> set rows. uq x ?r")
    case True
    with Cons.prems have "prisma_createMany_skipDuplicates uq ds now rows = (n, rows')"
      by (simp add: Let_def)
    from Cons.IH [OF this] obtain added where
      a: "rows' = rows @ added"
      "\<forall>d \<in> set ds.
        (\<exists>a \<in> set added. (projectId a, queueId a, objectId a, objectType a) = d) \<or>
        (\<exists>k \<le> length added. \<exists>x \<in> set (rows @ take k added).
            uq x (new_item (rows @ take k added) d now))"
      by blast
    from True have "\<exists>k \<le> length added. \<exists>x \<in> set (rows @ take k added).
            uq x (new_item (rows @ take k added) d now)"
      by (intro exI [of _ 0]) simp
    with a show ?thesis by auto
  next
    case False
    obtain m rows2 where
      rec0: "prisma_createMany_skipDuplicates uq ds now (rows @ [?r]) = (m, rows2)"
      by (cases "prisma_createMany_skipDuplicates uq ds now (rows @ [?r])")
    from False have "prisma_createMany_skipDuplicates uq (d # ds) now rows = (Suc m, rows2)"
      by (simp add: Let_def rec0)
    with Cons.prems have "rows2 = rows'" by simp
    with rec0 have rec: "prisma_createMany_skipDuplicates uq ds now (rows @ [?r]) = (m, rows')"
      by simp
    from Cons.IH [OF rec] obtain added where
      a: "rows' = (rows @ [?r]) @ added"
      "\<forall>d \<in> set ds.
        (\<exists>a \<in> set added. (projectId a, queueId a, objectId a, objectType a) = d) \<or>
        (\<exists>k \<le> length added. \<exists>x \<in> set ((rows @ [?r]) @ take k added).
            uq x (new_item ((rows @ [?r]) @ take k added) d now))"
      by blast
    have d: "(projectId ?r, queueId ?r, objectId ?r, objectType ?r) = d"
      by (cases d) (simp add: new_item_def)
    have rest: "\<forall>d' \<in> set ds.
        (\<exists>a \<in> set (?r # added). (projectId a, queueId a, objectId a, objectType a) = d') \<or>
        (\<exists>k \<le> length (?r # added). \<exists>x \<in> set (rows @ take k (?r # added)).
            uq x (new_item (rows @ take k (?r # added)) d' now))"
    proof
      fix d' assume "d' \<in> set ds"
      with a(2) consider
        (ins) "\<exists>a \<in> set added. (projectId a, queueId a, objectId a, objectType a) = d'"
      | (skip) k x where "k \<le> length added" "x \<in> set ((rows @ [?r]) @ take k added)"
          "uq x (new_item ((rows @ [?r]) @ take k added) d' now)"
        by blast
      then show "(\<exists>a \<in> set (?r # added). (projectId a, queueId a, objectId a, objectType a) = d') \<or>
        (\<exists>k \<le> length (?r # added). \<exists>x \<in> set (rows @ take k (?r # added)).
            uq x (new_item (rows @ take k (?r # added)) d' now))"
      proof cases
        case ins
        then show ?thesis by auto
      next
        case skip
        have eq: "rows @ take (Suc k) (?r # added) = (rows @ [?r]) @ take k added"
          by simp
        have "Suc k \<le> length (?r # added)" using skip(1) by simp
        moreover have "x \<in> set (rows @ take (Suc k) (?r # added))"
          unfolding eq by (rule skip(2))
        moreover have "uq x (new_item (rows @ take (Suc k) (?r # added)) d' now)"
          unfolding eq by (rule skip(3))
        ultimately show ?thesis by blast
      qed
    qed
    have "rows' = rows @ (?r # added)" using a(1) by simp
    moreover have "\<forall>d' \<in> set (d # ds).
        (\<exists>a \<in> set (?r # added). (projectId a, queueId a, objectId a, objectType a) = d') \<or>
        (\<exists>k \<le> length (?r # added). \<exists>x \<in> set (rows @ take k (?r # added)).
            uq x (new_item (rows @ take k (?r # added)) d' now))"
      using rest d by simp
    ultimately show ?thesis by blast
  qed
qed

lemma createMany_no_conflict:
  assumes "\<And>x r. \<not> uq x r"
  shows "\<exists>added. prisma_createMany_skipDuplicates uq ds now rows = (length ds, rows @ added) \<and>
           map (\<lambda>r. (projectId r, queueId r, objectId r, objectType r)) added = ds"
proof (induction ds arbitrary: rows)
  case Nil
  then show ?case by simp
next
  case (Cons d ds)
  let ?r = "new_item rows d now"
  from Cons.IH [of "rows @ [?r]"] obtain added where
    a: "prisma_createMany_skipDuplicates uq ds now (rows @ [?r]) = (length ds, (rows @ [?r]) @ added)"
    "map (\<lambda>r. (projectId r, queueId r, objectId r, objectType r)) added = ds"
    by blast
  have d: "(projectId ?r, queueId ?r, objectId ?r, objectType ?r) = d"
    by (cases d) (simp add: new_item_def)
  have "prisma_createMany_skipDuplicates uq (d # ds) now rows = (length (d # ds), rows @ (?r # added))"
    by (simp add: Let_def assms a(1))
  moreover have "map (\<lambda>r. (projectId r, queueId r, objectId r, objectType r)) (?r # added) = d # ds"
    using a(2) d by simp
  ultimately have "prisma_createMany_skipDuplicates uq (d # ds) now rows =
        (length (d # ds), rows @ (?r # added)) \<and>
      map (\<lambda>r. (projectId r, queueId r, objectId r, objectType r)) (?r # added) = d # ds"
    by (rule conjI)
  then show ?case by (rule exI)
qed

text \<open>
  Claim C6: with access granted, whatever the unique constraints, \<^verbatim>\<open>createMany\<close>
  reports the length of the input as \<^verbatim>\<open>totalRequested\<close> and the smaller of that length
  and 500 as \<^verbatim>\<open>created\<close>. The rows it appends are counted by \<^verbatim>\<open>count\<close>, are at most
  500, are pending items of the queue stamped with the time of the call, and their objects
  are, in order, a subsequence of the first 500 entries of the input: nothing beyond the cap
  is inserted. Each of the first 500 entries is attempted: it is inserted, or a row in the
  table at that moment excludes it. When no constraint excludes anything, the objects of the
  appended rows are exactly the first 500 entries, in order.
\<close>

theorem createMany_batch_cap:
  "\<exists>res added.
     queueItem_createMany uq None rows p q oids oty now = Inr (res, rows @ added) \<and>
     totalRequested res = length oids \<and>
     created res = min (length oids) 500 \<and>
     count res = length added \<and> length added \<le> 500 \<and>
     subseq (map objectId added) (take 500 oids) \<and>
     (\<forall>a \<in> set added. projectId a = p \<and> queueId a = q \<and> objectType a = oty \<and>
        status a = PENDING \<and> createdAt a = now) \<and>
     (\<forall>oid \<in> set (take 500 oids).
        (\<exists>a \<in> set added. objectId a = oid) \<or>
        (\<exists>k \<le> length added. \<exists>x \<in> set (rows @ take k added).
            uq x (new_item (rows @ take k added) (p, q, oid, oty) now))) \<and>
     ((\<forall>x r. \<not> uq x r) \<longrightarrow> map objectId added = take 500 oids)"
proof -
  let ?ds = "map (\<lambda>objectId. (p, q, objectId, oty)) (take MAX_ITEMS oids)"
  obtain n rows' where cm: "prisma_createMany_skipDuplicates uq ?ds now rows = (n, rows')"
    by (cases "prisma_createMany_skipDuplicates uq ?ds now rows")
  from createMany_appends [OF cm] obtain added where
    a: "rows' = rows @ added" "length added = n"
    "subseq (map (\<lambda>r. (projectId r, queueId r, objectId r, objectType r)) added) ?ds"
    "\<forall>a \<in> set added. status a = PENDING \<and> editStartTime a = None \<and>
        editStartByUserId a = None \<and> annotatorUserId a = None \<and> completedAt a = None \<and>
        createdAt a = now"
    by blast
  from list_emb_length [OF a(3)] have len: "length added \<le> 500"
    by (simp add: MAX_ITEMS_def)
  from a(3) have "subseq (map (fst \<circ> snd \<circ> snd)
        (map (\<lambda>r. (projectId r, queueId r, objectId r, objectType r)) added))
      (map (fst \<circ> snd \<circ> snd) ?ds)"
    by (rule subseq_map)
  then have sub: "subseq (map objectId added) (take 500 oids)"
    by (simp add: o_def MAX_ITEMS_def)
  have cols: "\<forall>a \<in> set added. projectId a = p \<and> queueId a = q \<and> objectType a = oty"
  proof
    fix a assume "a \<in> set added"
    then have "(projectId a, queueId a, objectId a, objectType a)
        \<in> set (map (\<lambda>r. (projectId r, queueId r, objectId r, objectType r)) added)"
      unfolding set_map by (rule imageI)
    with a(3) obtain y where "y \<in> set ?ds" and "(projectId a, queueId a, objectId a, objectType a) = y"
      by (rule list_emb_set)
    then show "projectId a = p \<and> queueId a = q \<and> objectType a = oty"
      by auto
  qed
  from createMany_attempts [OF cm] obtain added2 where
    b: "rows' = rows @ added2"
    "\<forall>d \<in> set ?ds.
        (\<exists>a \<in> set added2. (projectId a, queueId a, objectId a, objectType a) = d) \<or>
        (\<exists>k \<le> length added2. \<exists>x \<in> set (rows @ take k added2).
            uq x (new_item (rows @ take k added2) d now))"
    by blast
  from a(1) b(1) have "added2 = added" by simp
  with b(2) have att0: "\<forall>d \<in> set ?ds.
        (\<exists>a \<in> set added. (projectId a, queueId a, objectId a, objectType a) = d) \<or>
        (\<exists>k \<le> length added. \<exists>x \<in> set (rows @ take k added).
            uq x (new_item (rows @ take k added) d now))"
    by simp
  have att: "\<forall>oid \<in> set (take 500 oids).
        (\<exists>a \<in> set added. objectId a = oid) \<or>
        (\<exists>k \<le> length added. \<exists>x \<in> set (rows @ take k added).
            uq x (new_item (rows @ take k added) (p, q, oid, oty) now))"
  proof
    fix oid assume "oid \<in> set (take 500 oids)"
    then have "(p, q, oid, oty) \<in> set ?ds" by (simp add: MAX_ITEMS_def image_iff)
    with att0 have "(\<exists>a \<in> set added. (projectId a, queueId a, objectId a, objectType a) = (p, q, oid, oty)) \<or>
        (\<exists>k \<le> length added. \<exists>x \<in> set (rows @ take k added).
            uq x (new_item (rows @ take k added) (p, q, oid, oty) now))"
      by (rule bspec)
    then show "(\<exists>a \<in> set added. objectId a = oid) \<or>
        (\<exists>k \<le> length added. \<exists>x \<in> set (rows @ take k added).
            uq x (new_item (rows @ take k added) (p, q, oid, oty) now))"
      by auto
  qed
  have exact: "(\<forall>x r. \<not> uq x r) \<longrightarrow> map objectId added = take 500 oids"
  proof
    assume nc: "\<forall>x r. \<not> uq x r"
    then have "\<And>x r. \<not> uq x r" by simp
    from createMany_no_conflict [of uq ?ds now rows, OF this] obtain added3 where
      c: "prisma_createMany_skipDuplicates uq ?ds now rows = (length ?ds, rows @ added3)"
      "map (\<lambda>r. (projectId r, queueId r, objectId r, objectType r)) added3 = ?ds"
      by blast
    from c(1) cm a(1) have "added3 = added" by simp
    with c(2) have "map (fst \<circ> snd \<circ> snd)
        (map (\<lambda>r. (projectId r, queueId r, objectId r, objectType r)) added) =
        map (fst \<circ> snd \<circ> snd) ?ds"
      by simp
    then show "map objectId added = take 500 oids"
      by (simp add: o_def MAX_ITEMS_def)
  qed
  let ?res = "\<lparr>count = n, totalRequested = length oids, created = min (length oids) MAX_ITEMS\<rparr>"
  have "queueItem_createMany uq None rows p q oids oty now = Inr (?res, rows @ added)"
    by (simp add: createMany_granted cm a(1))
  moreover have "totalRequested ?res = length oids" "created ?res = min (length oids) 500"
    "count ?res = length added"
    by (simp_all add: MAX_ITEMS_def a(2))
  ultimately show ?thesis using len sub cols a(4) att exact by blast
qed

theorem createMany_batch_cap_witness:
  "\<exists>res added.
     queueItem_createMany (\<lambda>_ _. False) None [] ''p'' ''q'' (replicate 600 ''o'') TRACE 0 =
       Inr (res, added) \<and>
     totalRequested res = 600 \<and> created res = 500 \<and> count res = 500 \<and>
     map objectId added = replicate 500 ''o''"
proof -
  from createMany_batch_cap [of "\<lambda>_ _. False" "[]" "''p''" "''q''" "replicate 600 ''o''" TRACE 0]
  obtain res added where
    r: "queueItem_createMany (\<lambda>_ _. False) None [] ''p'' ''q'' (replicate 600 ''o'') TRACE 0 =
       Inr (res, [] @ added)"
    "totalRequested res = length (replicate 600 ''o'')"
    "created res = min (length (replicate 600 ''o'')) 500"
    "count res = length added"
    "(\<forall>x r. \<not> (\<lambda>_ _. False) x (r::AnnotationQueueItem)) \<longrightarrow>
       map objectId added = take 500 (replicate 600 ''o'')"
    by blast
  from r(5) have m: "map objectId added = replicate 500 ''o''" by simp
  then have "length (map objectId added) = 500" by simp
  then have "length added = 500" by simp
  with r(1-4) m show ?thesis by simp
qed

text \<open>
  Enrollment under the key of invariant I3: a pending item of the same queue and object
  reference excludes a new one, a completed item does not.
\<close>

lemma new_item_ref: "queue_object_ref (new_item rows (pid, qid, oid, oty) now) = (qid, oid, oty)"
  by (simp add: new_item_def queue_object_ref_def)

lemma new_item_pending: "status (new_item rows d now) = PENDING"
  by (cases d) (simp add: new_item_def)

lemma createMany_dedup:
  "prisma_createMany_skipDuplicates pending_object_unique ds now rows = (n, rows') \<Longrightarrow>
   \<exists>added. rows' = rows @ added \<and> distinct (map queue_object_ref added) \<and>
     (\<forall>a \<in> set added. status a = PENDING \<and>
        (\<forall>r \<in> set rows. status r = PENDING \<longrightarrow> queue_object_ref a \<noteq> queue_object_ref r))"
proof (induction ds arbitrary: rows n rows')
  case Nil
  then show ?case by simp
next
  case (Cons d ds)
  let ?r = "new_item rows d now"
  have pend: "status ?r = PENDING" by (rule new_item_pending)
  show ?case
  proof (cases "\<exists>x \<in> set rows. pending_object_unique x ?r")
    case True
    with Cons.prems
    have "prisma_createMany_skipDuplicates pending_object_unique ds now rows = (n, rows')"
      by (simp add: Let_def)
    from Cons.IH [OF this] show ?thesis .
  next
    case False
    obtain m rows2 where
      rec0: "prisma_createMany_skipDuplicates pending_object_unique ds now (rows @ [?r]) = (m, rows2)"
      by (cases "prisma_createMany_skipDuplicates pending_object_unique ds now (rows @ [?r])")
    from False
    have "prisma_createMany_skipDuplicates pending_object_unique (d # ds) now rows = (Suc m, rows2)"
      by (simp add: Let_def rec0)
    with Cons.prems have "rows2 = rows'" by simp
    with rec0
    have rec: "prisma_createMany_skipDuplicates pending_object_unique ds now (rows @ [?r]) = (m, rows')"
      by simp
    from Cons.IH [OF rec] obtain added where
      a: "rows' = (rows @ [?r]) @ added" "distinct (map queue_object_ref added)"
      "\<forall>a \<in> set added. status a = PENDING \<and>
        (\<forall>r \<in> set (rows @ [?r]). status r = PENDING \<longrightarrow> queue_object_ref a \<noteq> queue_object_ref r)"
      by blast
    from False pend
    have new: "\<forall>r \<in> set rows. status r = PENDING \<longrightarrow> queue_object_ref ?r \<noteq> queue_object_ref r"
      by (auto simp: pending_object_unique_def)
    from a(3) pend have "\<forall>a \<in> set added. queue_object_ref a \<noteq> queue_object_ref ?r"
      by simp
    then have "queue_object_ref ?r \<notin> set (map queue_object_ref added)"
      by (auto simp: image_iff)
    with a(2) have c2: "distinct (map queue_object_ref (?r # added))"
      by simp
    have c3: "\<forall>a \<in> set (?r # added). status a = PENDING \<and>
        (\<forall>r \<in> set rows. status r = PENDING \<longrightarrow> queue_object_ref a \<noteq> queue_object_ref r)"
      using a(3) new pend by simp
    have c1: "rows' = rows @ (?r # added)" using a(1) by simp
    from c1 c2 c3 show ?thesis by blast
  qed
qed

lemma createMany_covers:
  "prisma_createMany_skipDuplicates pending_object_unique ds now rows = (n, rows') \<Longrightarrow>
   \<forall>d \<in> set ds. \<exists>r \<in> set rows'. status r = PENDING \<and> queue_object_ref r = snd d"
proof (induction ds arbitrary: rows n rows')
  case Nil
  then show ?case by simp
next
  case (Cons d ds)
  let ?r = "new_item rows d now"
  have ref: "queue_object_ref ?r = snd d"
    by (cases d) (simp add: new_item_ref)
  have pend: "status ?r = PENDING" by (rule new_item_pending)
  show ?case
  proof (cases "\<exists>x \<in> set rows. pending_object_unique x ?r")
    case True
    with Cons.prems
    have rec: "prisma_createMany_skipDuplicates pending_object_unique ds now rows = (n, rows')"
      by (simp add: Let_def)
    from createMany_dedup [OF rec] have "set rows \<subseteq> set rows'" by auto
    moreover from True ref obtain x where "x \<in> set rows" "status x = PENDING"
      "queue_object_ref x = snd d"
      by (auto simp: pending_object_unique_def)
    ultimately have "\<exists>r \<in> set rows'. status r = PENDING \<and> queue_object_ref r = snd d"
      by blast
    with Cons.IH [OF rec] show ?thesis by simp
  next
    case False
    obtain m rows2 where
      rec0: "prisma_createMany_skipDuplicates pending_object_unique ds now (rows @ [?r]) = (m, rows2)"
      by (cases "prisma_createMany_skipDuplicates pending_object_unique ds now (rows @ [?r])")
    from False
    have "prisma_createMany_skipDuplicates pending_object_unique (d # ds) now rows = (Suc m, rows2)"
      by (simp add: Let_def rec0)
    with Cons.prems have "rows2 = rows'" by simp
    with rec0
    have rec: "prisma_createMany_skipDuplicates pending_object_unique ds now (rows @ [?r]) = (m, rows')"
      by simp
    from createMany_dedup [OF rec] have "?r \<in> set rows'" by auto
    with ref pend have "\<exists>r \<in> set rows'. status r = PENDING \<and> queue_object_ref r = snd d"
      by blast
    with Cons.IH [OF rec] show ?thesis by simp
  qed
qed

lemma createMany_all_present:
  "\<forall>d \<in> set ds. \<exists>r \<in> set rows. status r = PENDING \<and> queue_object_ref r = snd d \<Longrightarrow>
   prisma_createMany_skipDuplicates pending_object_unique ds now rows = (0, rows)"
proof (induction ds)
  case Nil
  then show ?case by simp
next
  case (Cons d ds)
  have "queue_object_ref (new_item rows d now) = snd d"
    by (cases d) (simp add: new_item_ref)
  moreover have "status (new_item rows d now) = PENDING" by (rule new_item_pending)
  moreover from Cons.prems obtain r where "r \<in> set rows" "status r = PENDING"
    "queue_object_ref r = snd d" by auto
  ultimately have "\<exists>x \<in> set rows. pending_object_unique x (new_item rows d now)"
    by (auto simp: pending_object_unique_def)
  moreover from Cons have "prisma_createMany_skipDuplicates pending_object_unique ds now rows = (0, rows)"
    by simp
  ultimately show ?case by (simp add: Let_def)
qed

lemma distinct_key_once:
  "distinct (map f xs) \<Longrightarrow> x \<in> set xs \<Longrightarrow> length (filter (\<lambda>r. f r = f x) xs) = 1"
proof (induction xs)
  case Nil
  then show ?case by simp
next
  case (Cons y ys)
  show ?case
  proof (cases "f y = f x")
    case True
    with Cons.prems have "\<forall>r \<in> set ys. f r \<noteq> f x" by (auto simp: image_iff)
    then have "filter (\<lambda>r. f r = f x) ys = []" by (simp add: filter_empty_conv)
    with True show ?thesis by simp
  next
    case False
    with Cons show ?thesis by auto
  qed
qed

text \<open>
  Claim C5, under invariant I3. On a table with at most one pending item for each queue
  and object reference, a first \<^verbatim>\<open>createMany\<close> with access granted returns normally and
  adds as many rows as it counts; a second one with the same input reports the count 0 and
  leaves the table as it is; and the table then holds exactly one pending item for each of
  the first 500 objects of the input, and still at most one pending item for each queue and
  object reference.
\<close>

theorem createMany_idempotent:
  assumes "distinct (map queue_object_ref (filter (\<lambda>r. status r = PENDING) rows))"
  shows "\<exists>res1 rows1.
           queueItem_createMany pending_object_unique None rows p q oids oty t1 = Inr (res1, rows1) \<and>
           length rows1 = length rows + count res1 \<and>
           queueItem_createMany pending_object_unique None rows1 p q oids oty t2 =
             Inr (\<lparr>count = 0, totalRequested = length oids,
                   created = min (length oids) 500\<rparr>, rows1) \<and>
           distinct (map queue_object_ref (filter (\<lambda>r. status r = PENDING) rows1)) \<and>
           (\<forall>oid \<in> set (take 500 oids).
              length (filter (\<lambda>r. status r = PENDING \<and> queue_object_ref r = (q, oid, oty)) rows1) = 1)"
proof -
  let ?ds = "map (\<lambda>objectId. (p, q, objectId, oty)) (take MAX_ITEMS oids)"
  obtain n rows1 where
    cm: "prisma_createMany_skipDuplicates pending_object_unique ?ds t1 rows = (n, rows1)"
    by (cases "prisma_createMany_skipDuplicates pending_object_unique ?ds t1 rows")
  let ?res1 = "\<lparr>count = n, totalRequested = length oids, created = min (length oids) MAX_ITEMS\<rparr>"
  have first: "queueItem_createMany pending_object_unique None rows p q oids oty t1 = Inr (?res1, rows1)"
    by (simp add: createMany_granted cm)
  from createMany_appends [OF cm] have len: "length rows1 = length rows + count ?res1"
    by auto
  have cov: "\<forall>d \<in> set ?ds. \<exists>r \<in> set rows1. status r = PENDING \<and> queue_object_ref r = snd d"
    using cm by (rule createMany_covers)
  then have "prisma_createMany_skipDuplicates pending_object_unique ?ds t2 rows1 = (0, rows1)"
    by (rule createMany_all_present)
  then have second: "queueItem_createMany pending_object_unique None rows1 p q oids oty t2 =
           Inr (\<lparr>count = 0, totalRequested = length oids,
                 created = min (length oids) 500\<rparr>, rows1)"
    by (simp add: createMany_granted MAX_ITEMS_def)
  from createMany_dedup [OF cm] obtain added where
    a: "rows1 = rows @ added" "distinct (map queue_object_ref added)"
    "\<forall>a \<in> set added. status a = PENDING \<and>
        (\<forall>r \<in> set rows. status r = PENDING \<longrightarrow> queue_object_ref a \<noteq> queue_object_ref r)"
    by blast
  from a(3) have "filter (\<lambda>r. status r = PENDING) added = added"
    by (simp add: filter_id_conv)
  with a(1) have flt: "filter (\<lambda>r. status r = PENDING) rows1 =
      filter (\<lambda>r. status r = PENDING) rows @ added"
    by simp
  have dist: "distinct (map queue_object_ref (filter (\<lambda>r. status r = PENDING) rows1))"
    unfolding flt using assms a(2,3) by (auto simp: image_iff)
  have once: "\<forall>oid \<in> set (take 500 oids).
      length (filter (\<lambda>r. status r = PENDING \<and> queue_object_ref r = (q, oid, oty)) rows1) = 1"
  proof
    fix oid assume "oid \<in> set (take 500 oids)"
    then have "(p, q, oid, oty) \<in> set ?ds" by (simp add: MAX_ITEMS_def image_iff)
    with cov obtain r where r: "r \<in> set rows1" "status r = PENDING"
      "queue_object_ref r = (q, oid, oty)"
      by fastforce
    from r(1,2) have "r \<in> set (filter (\<lambda>r. status r = PENDING) rows1)" by simp
    from distinct_key_once [OF dist this] r(3)
    have "length (filter (\<lambda>x. queue_object_ref x = (q, oid, oty))
        (filter (\<lambda>r. status r = PENDING) rows1)) = 1"
      by simp
    then show "length (filter (\<lambda>r. status r = PENDING \<and> queue_object_ref r = (q, oid, oty)) rows1) = 1"
      by (simp add: conj_commute)
  qed
  from first len second dist once show ?thesis by blast
qed

theorem createMany_idempotent_witness:
  "queueItem_createMany pending_object_unique None
     [\<lparr>item_id = 1, projectId = ''p'', queueId = ''q'', objectId = ''a'',
       objectType = TRACE, status = COMPLETED, editStartTime = None,
       editStartByUserId = None, annotatorUserId = Some ''u1'', completedAt = Some 20,
       createdAt = 5\<rparr>,
      \<lparr>item_id = 2, projectId = ''p'', queueId = ''q'', objectId = ''b'',
       objectType = TRACE, status = PENDING, editStartTime = None,
       editStartByUserId = None, annotatorUserId = None, completedAt = None,
       createdAt = 7\<rparr>]
     ''p'' ''q'' [''a'', ''b'', ''a''] TRACE 50 =
   Inr (\<lparr>count = 1, totalRequested = 3, created = 3\<rparr>,
     [\<lparr>item_id = 1, projectId = ''p'', queueId = ''q'', objectId = ''a'',
       objectType = TRACE, status = COMPLETED, editStartTime = None,
       editStartByUserId = None, annotatorUserId = Some ''u1'', completedAt = Some 20,
       createdAt = 5\<rparr>,
      \<lparr>item_id = 2, projectId = ''p'', queueId = ''q'', objectId = ''b'',
       objectType = TRACE, status = PENDING, editStartTime = None,
       editStartByUserId = None, annotatorUserId = None, completedAt = None,
       createdAt = 7\<rparr>,
      \<lparr>item_id = 3, projectId = ''p'', queueId = ''q'', objectId = ''a'',
       objectType = TRACE, status = PENDING, editStartTime = None,
       editStartByUserId = None, annotatorUserId = None, completedAt = None,
       createdAt = 50\<rparr>]) \<and>
   queueItem_createMany pending_object_unique None
     [\<lparr>item_id = 1, projectId = ''p'', queueId = ''q'', objectId = ''a'',
       objectType = TRACE, status = COMPLETED, editStartTime = None,
       editStartByUserId = None, annotatorUserId = Some ''u1'', completedAt = Some 20,
       createdAt = 5\<rparr>,
      \<lparr>item_id = 2, projectId = ''p'', queueId = ''q'', objectId = ''b'',
       objectType = TRACE, status = PENDING, editStartTime = None,
       editStartByUserId = None, annotatorUserId = None, completedAt = None,
       createdAt = 7\<rparr>,
      \<lparr>item_id = 3, projectId = ''p'', queueId = ''q'', objectId = ''a'',
       objectType = TRACE, status = PENDING, editStartTime = None,
       editStartByUserId = None, annotatorUserId = None, completedAt = None,
       createdAt = 50\<rparr>]
     ''p'' ''q'' [''a'', ''b'', ''a''] TRACE 99 =
   Inr (\<lparr>count = 0, totalRequested = 3, created = 3\<rparr>,
     [\<lparr>item_id = 1, projectId = ''p'', queueId = ''q'', objectId = ''a'',
       objectType = TRACE, status = COMPLETED, editStartTime = None,
       editStartByUserId = None, annotatorUserId = Some ''u1'', completedAt = Some 20,
       createdAt = 5\<rparr>,
      \<lparr>item_id = 2, projectId = ''p'', queueId = ''q'', objectId = ''b'',
       objectType = TRACE, status = PENDING, editStartTime = None,
       editStartByUserId = None, annotatorUserId = None, completedAt = None,
       createdAt = 7\<rparr>,
      \<lparr>item_id = 3, projectId = ''p'', queueId = ''q'', objectId = ''a'',
       objectType = TRACE, status = PENDING, editStartTime = None,
       editStartByUserId = None, annotatorUserId = None, completedAt = None,
       createdAt = 50\<rparr>]) \<and>
   length (filter (\<lambda>r. status r = PENDING \<and> queue_object_ref r = (''q'', ''a'', TRACE))
     [\<lparr>item_id = 1, projectId = ''p'', queueId = ''q'', objectId = ''a'',
       objectType = TRACE, status = COMPLETED, editStartTime = None,
       editStartByUserId = None, annotatorUserId = Some ''u1'', completedAt = Some 20,
       createdAt = 5\<rparr>,
      \<lparr>item_id = 2, projectId = ''p'', queueId = ''q'', objectId = ''b'',
       objectType = TRACE, status = PENDING, editStartTime = None,
       editStartByUserId = None, annotatorUserId = None, completedAt = None,
       createdAt = 7\<rparr>,
      \<lparr>item_id = 3, projectId = ''p'', queueId = ''q'', objectId = ''a'',
       objectType = TRACE, status = PENDING, editStartTime = None,
       editStartByUserId = None, annotatorUserId = None, completedAt = None,
       createdAt = 50\<rparr>]) = 1 \<and>
   length (filter (\<lambda>r. status r = PENDING \<and> queue_object_ref r = (''q'', ''b'', TRACE))
     [\<lparr>item_id = 1, projectId = ''p'', queueId = ''q'', objectId = ''a'',
       objectType = TRACE, status = COMPLETED, editStartTime = None,
       editStartByUserId = None, annotatorUserId = Some ''u1'', completedAt = Some 20,
       createdAt = 5\<rparr>,
      \<lparr>item_id = 2, projectId = ''p'', queueId = ''q'', objectId = ''b'',
       objectType = TRACE, status = PENDING, editStartTime = None,
       editStartByUserId = None, annotatorUserId = None, completedAt = None,
       createdAt = 7\<rparr>,
      \<lparr>item_id = 3, projectId = ''p'', queueId = ''q'', objectId = ''a'',
       objectType = TRACE, status = PENDING, editStartTime = None,
       editStartByUserId = None, annotatorUserId = None, completedAt = None,
       createdAt = 50\<rparr>]) = 1"
proof -
  let ?rows = "[\<lparr>item_id = 1, projectId = ''p'', queueId = ''q'', objectId = ''a'',
       objectType = TRACE, status = COMPLETED, editStartTime = None,
       editStartByUserId = None, annotatorUserId = Some ''u1'', completedAt = Some 20,
       createdAt = 5\<rparr>,
      \<lparr>item_id = 2, projectId = ''p'', queueId = ''q'', objectId = ''b'',
       objectType = TRACE, status = PENDING, editStartTime = None,
       editStartByUserId = None, annotatorUserId = None, completedAt = None,
       createdAt = 7\<rparr>]"
  have h1: "distinct (map queue_object_ref (filter (\<lambda>r. status r = PENDING) ?rows))"
    by simp
  have h2: "queueItem_createMany pending_object_unique None ?rows
     ''p'' ''q'' [''a'', ''b'', ''a''] TRACE 50 =
   Inr (\<lparr>count = 1, totalRequested = 3, created = 3\<rparr>,
     [\<lparr>item_id = 1, projectId = ''p'', queueId = ''q'', objectId = ''a'',
       objectType = TRACE, status = COMPLETED, editStartTime = None,
       editStartByUserId = None, annotatorUserId = Some ''u1'', completedAt = Some 20,
       createdAt = 5\<rparr>,
      \<lparr>item_id = 2, projectId = ''p'', queueId = ''q'', objectId = ''b'',
       objectType = TRACE, status = PENDING, editStartTime = None,
       editStartByUserId = None, annotatorUserId = None, completedAt = None,
       createdAt = 7\<rparr>,
      \<lparr>item_id = 3, projectId = ''p'', queueId = ''q'', objectId = ''a'',
       objectType = TRACE, status = PENDING, editStartTime = None,
       editStartByUserId = None, annotatorUserId = None, completedAt = None,
       createdAt = 50\<rparr>])"
    by (simp add: queueItem_createMany_def MAX_ITEMS_def new_item_def fresh_id_def
        pending_object_unique_def queue_object_ref_def Let_def)
  from createMany_idempotent [OF h1, of "''p''" "''q''" "[''a'', ''b'', ''a'']" TRACE 50 99]
  show ?thesis unfolding h2 by simp
qed

text \<open>
  Claim C5 as stated fails under invariant I3 when the queue holds a completed item for an
  object: the first call enrols the object again beside it, the second call adds nothing,
  and the queue then holds two items for the pair, one completed and one pending.
\<close>

theorem createMany_twice_beside_completed:
  "queueItem_createMany pending_object_unique None
     [\<lparr>item_id = 1, projectId = ''p'', queueId = ''q'', objectId = ''a'',
       objectType = TRACE, status = COMPLETED, editStartTime = None,
       editStartByUserId = None, annotatorUserId = Some ''u1'', completedAt = Some 20,
       createdAt = 5\<rparr>]
     ''p'' ''q'' [''a''] TRACE 50 =
   Inr (\<lparr>count = 1, totalRequested = 1, created = 1\<rparr>,
     [\<lparr>item_id = 1, projectId = ''p'', queueId = ''q'', objectId = ''a'',
       objectType = TRACE, status = COMPLETED, editStartTime = None,
       editStartByUserId = None, annotatorUserId = Some ''u1'', completedAt = Some 20,
       createdAt = 5\<rparr>,
      \<lparr>item_id = 2, projectId = ''p'', queueId = ''q'', objectId = ''a'',
       objectType = TRACE, status = PENDING, editStartTime = None,
       editStartByUserId = None, annotatorUserId = None, completedAt = None,
       createdAt = 50\<rparr>]) \<and>
   queueItem_createMany pending_object_unique None
     [\<lparr>item_id = 1, projectId = ''p'', queueId = ''q'', objectId = ''a'',
       objectType = TRACE, status = COMPLETED, editStartTime = None,
       editStartByUserId = None, annotatorUserId = Some ''u1'', completedAt = Some 20,
       createdAt = 5\<rparr>,
      \<lparr>item_id = 2, projectId = ''p'', queueId = ''q'', objectId = ''a'',
       objectType = TRACE, status = PENDING, editStartTime = None,
       editStartByUserId = None, annotatorUserId = None, completedAt = None,
       createdAt = 50\<rparr>]
     ''p'' ''q'' [''a''] TRACE 99 =
   Inr (\<lparr>count = 0, totalRequested = 1, created = 1\<rparr>,
     [\<lparr>item_id = 1, projectId = ''p'', queueId = ''q'', objectId = ''a'',
       objectType = TRACE, status = COMPLETED, editStartTime = None,
       editStartByUserId = None, annotatorUserId = Some ''u1'', completedAt = Some 20,
       createdAt = 5\<rparr>,
      \<lparr>item_id = 2, projectId = ''p'', queueId = ''q'', objectId = ''a'',
       objectType = TRACE, status = PENDING, editStartTime = None,
       editStartByUserId = None, annotatorUserId = None, completedAt = None,
       createdAt = 50\<rparr>]) \<and>
   length (filter (\<lambda>r. queue_object_ref r = (''q'', ''a'', TRACE))
     [\<lparr>item_id = 1, projectId = ''p'', queueId = ''q'', objectId = ''a'',
       objectType = TRACE, status = COMPLETED, editStartTime = None,
       editStartByUserId = None, annotatorUserId = Some ''u1'', completedAt = Some 20,
       createdAt = 5\<rparr>,
      \<lparr>item_id = 2, projectId = ''p'', queueId = ''q'', objectId = ''a'',
       objectType = TRACE, status = PENDING, editStartTime = None,
       editStartByUserId = None, annotatorUserId = None, completedAt = None,
       createdAt = 50\<rparr>]) = 2"
  by (simp add: queueItem_createMany_def MAX_ITEMS_def new_item_def fresh_id_def
        pending_object_unique_def queue_object_ref_def Let_def)

lemma create_granted_Inr:
  assumes "queueItem_create uq access rows p q oid oty now = Inr (item, rows')"
  shows "item = new_item rows (p, q, oid, oty) now \<and> rows' = rows @ [item] \<and>
         (\<forall>x \<in> set rows. \<not> uq x item)"
proof (cases access)
  case (Some e)
  with assms show ?thesis by (simp add: queueItem_create_def)
next
  case None
  show ?thesis
  proof (cases "\<exists>x \<in> set rows. uq x (new_item rows (p, q, oid, oty) now)")
    case True
    with None assms show ?thesis
      by (simp add: queueItem_create_def prisma_create_def Let_def)
  next
    case False
    with None assms show ?thesis
      by (auto simp: queueItem_create_def prisma_create_def Let_def)
  qed
qed

lemma create_granted_free:
  assumes "\<forall>r \<in> set rows. status r = PENDING \<longrightarrow> queue_object_ref r \<noteq> (q, oid, oty)"
  shows "queueItem_create pending_object_unique None rows p q oid oty now =
           Inr (new_item rows (p, q, oid, oty) now, rows @ [new_item rows (p, q, oid, oty) now])"
proof -
  have "\<not> (\<exists>x \<in> set rows. pending_object_unique x (new_item rows (p, q, oid, oty) now))"
    using assms by (auto simp: pending_object_unique_def new_item_ref)
  then show ?thesis
    by (simp add: queueItem_create_def prisma_create_def Let_def)
qed

text \<open>
  Claim C7, under invariant I3. When \<^verbatim>\<open>create\<close> returns an item, the item is pending,
  it is the one row added, and no pending item of the table had its queue and object
  reference; with access granted \<^verbatim>\<open>create\<close> does insert whenever no pending item has
  them. The rows \<^verbatim>\<open>createMany\<close> adds are pending, and their queue and object references
  differ from each other and from those of every pending item of the table.
\<close>

theorem enrollment_no_second_pending_item:
  "(queueItem_create pending_object_unique access rows p q oid oty now = Inr (item, rows') \<longrightarrow>
      rows' = rows @ [item] \<and> queue_object_ref item = (q, oid, oty) \<and> status item = PENDING \<and>
      (\<forall>r \<in> set rows. status r = PENDING \<longrightarrow> queue_object_ref r \<noteq> (q, oid, oty))) \<and>
   ((\<forall>r \<in> set rows. status r = PENDING \<longrightarrow> queue_object_ref r \<noteq> (q, oid, oty)) \<longrightarrow>
      (\<exists>item. queueItem_create pending_object_unique None rows p q oid oty now =
                Inr (item, rows @ [item]))) \<and>
   (queueItem_createMany pending_object_unique access rows p q oids oty now = Inr (res, rows'') \<longrightarrow>
      (\<exists>added. rows'' = rows @ added \<and> distinct (map queue_object_ref added) \<and>
         (\<forall>a \<in> set added. status a = PENDING \<and>
            (\<forall>r \<in> set rows. status r = PENDING \<longrightarrow> queue_object_ref a \<noteq> queue_object_ref r))))"
proof -
  have one: "queueItem_create pending_object_unique access rows p q oid oty now = Inr (item, rows') \<longrightarrow>
      rows' = rows @ [item] \<and> queue_object_ref item = (q, oid, oty) \<and> status item = PENDING \<and>
      (\<forall>r \<in> set rows. status r = PENDING \<longrightarrow> queue_object_ref r \<noteq> (q, oid, oty))"
  proof
    assume c: "queueItem_create pending_object_unique access rows p q oid oty now = Inr (item, rows')"
    from create_granted_Inr [OF c]
    have i: "item = new_item rows (p, q, oid, oty) now" and r: "rows' = rows @ [item]"
      and u: "\<forall>x \<in> set rows. \<not> pending_object_unique x item" by blast+
    from i have ref: "queue_object_ref item = (q, oid, oty)" by (simp add: new_item_ref)
    from i have pend: "status item = PENDING" by (simp add: new_item_pending)
    from u ref pend
    have "\<forall>r \<in> set rows. status r = PENDING \<longrightarrow> queue_object_ref r \<noteq> (q, oid, oty)"
      by (auto simp: pending_object_unique_def)
    with r ref pend show "rows' = rows @ [item] \<and> queue_object_ref item = (q, oid, oty) \<and>
      status item = PENDING \<and>
      (\<forall>r \<in> set rows. status r = PENDING \<longrightarrow> queue_object_ref r \<noteq> (q, oid, oty))"
      by simp
  qed
  have two: "(\<forall>r \<in> set rows. status r = PENDING \<longrightarrow> queue_object_ref r \<noteq> (q, oid, oty)) \<longrightarrow>
      (\<exists>item. queueItem_create pending_object_unique None rows p q oid oty now =
                Inr (item, rows @ [item]))"
  proof
    assume "\<forall>r \<in> set rows. status r = PENDING \<longrightarrow> queue_object_ref r \<noteq> (q, oid, oty)"
    then have "queueItem_create pending_object_unique None rows p q oid oty now =
           Inr (new_item rows (p, q, oid, oty) now, rows @ [new_item rows (p, q, oid, oty) now])"
      by (rule create_granted_free)
    then show "\<exists>item. queueItem_create pending_object_unique None rows p q oid oty now =
                Inr (item, rows @ [item])"
      by (rule exI)
  qed
  have three: "queueItem_createMany pending_object_unique access rows p q oids oty now = Inr (res, rows'') \<longrightarrow>
      (\<exists>added. rows'' = rows @ added \<and> distinct (map queue_object_ref added) \<and>
         (\<forall>a \<in> set added. status a = PENDING \<and>
            (\<forall>r \<in> set rows. status r = PENDING \<longrightarrow> queue_object_ref a \<noteq> queue_object_ref r)))"
  proof
    assume c: "queueItem_createMany pending_object_unique access rows p q oids oty now = Inr (res, rows'')"
    then have "access = None"
      by (cases access) (simp_all add: queueItem_createMany_def)
    with c have "snd (prisma_createMany_skipDuplicates pending_object_unique
        (map (\<lambda>objectId. (p, q, objectId, oty)) (take MAX_ITEMS oids)) now rows) = rows''"
      by (simp add: createMany_granted)
    then obtain n where "prisma_createMany_skipDuplicates pending_object_unique
        (map (\<lambda>objectId. (p, q, objectId, oty)) (take MAX_ITEMS oids)) now rows = (n, rows'')"
      by (cases "prisma_createMany_skipDuplicates pending_object_unique
        (map (\<lambda>objectId. (p, q, objectId, oty)) (take MAX_ITEMS oids)) now rows") simp
    then show "\<exists>added. rows'' = rows @ added \<and> distinct (map queue_object_ref added) \<and>
         (\<forall>a \<in> set added. status a = PENDING \<and>
            (\<forall>r \<in> set rows. status r = PENDING \<longrightarrow> queue_object_ref a \<noteq> queue_object_ref r))"
      by (rule createMany_dedup)
  qed
  from one two three show ?thesis by (intro conjI)
qed

theorem enrollment_no_second_pending_item_witness:
  "[\<lparr>item_id = 1, projectId = ''p'', queueId = ''q'', objectId = ''a'',
       objectType = TRACE, status = COMPLETED, editStartTime = None,
       editStartByUserId = None, annotatorUserId = Some ''u1'', completedAt = Some 20,
       createdAt = 5\<rparr>,
    \<lparr>item_id = 2, projectId = ''p'', queueId = ''q'', objectId = ''b'',
       objectType = TRACE, status = PENDING, editStartTime = None,
       editStartByUserId = None, annotatorUserId = None, completedAt = None,
       createdAt = 7\<rparr>,
    \<lparr>item_id = 3, projectId = ''p'', queueId = ''q'', objectId = ''a'',
       objectType = TRACE, status = PENDING, editStartTime = None,
       editStartByUserId = None, annotatorUserId = None, completedAt = None,
       createdAt = 50\<rparr>] =
   [\<lparr>item_id = 1, projectId = ''p'', queueId = ''q'', objectId = ''a'',
       objectType = TRACE, status = COMPLETED, editStartTime = None,
       editStartByUserId = None, annotatorUserId = Some ''u1'', completedAt = Some 20,
       createdAt = 5\<rparr>,
    \<lparr>item_id = 2, projectId = ''p'', queueId = ''q'', objectId = ''b'',
       objectType = TRACE, status = PENDING, editStartTime = None,
       editStartByUserId = None, annotatorUserId = None, completedAt = None,
       createdAt = 7\<rparr>] @
   [\<lparr>item_id = 3, projectId = ''p'', queueId = ''q'', objectId = ''a'',
       objectType = TRACE, status = PENDING, editStartTime = None,
       editStartByUserId = None, annotatorUserId = None, completedAt = None,
       createdAt = 50\<rparr>] \<and>
   queue_object_ref \<lparr>item_id = 3, projectId = ''p'', queueId = ''q'', objectId = ''a'',
       objectType = TRACE, status = PENDING, editStartTime = None,
       editStartByUserId = None, annotatorUserId = None, completedAt = None,
       createdAt = 50\<rparr> = (''q'', ''a'', TRACE) \<and>
   status \<lparr>item_id = 3, projectId = ''p'', queueId = ''q'', objectId = ''a'',
       objectType = TRACE, status = PENDING, editStartTime = None,
       editStartByUserId = None, annotatorUserId = None, completedAt = None,
       createdAt = 50\<rparr> = PENDING \<and>
   (\<exists>item. queueItem_create pending_object_unique None
      [\<lparr>item_id = 1, projectId = ''p'', queueId = ''q'', objectId = ''a'',
       objectType = TRACE, status = COMPLETED, editStartTime = None,
       editStartByUserId = None, annotatorUserId = Some ''u1'', completedAt = Some 20,
       createdAt = 5\<rparr>,
       \<lparr>item_id = 2, projectId = ''p'', queueId = ''q'', objectId = ''b'',
       objectType = TRACE, status = PENDING, editStartTime = None,
       editStartByUserId = None, annotatorUserId = None, completedAt = None,
       createdAt = 7\<rparr>]
      ''p'' ''q'' ''a'' TRACE 50 =
    Inr (item,
      [\<lparr>item_id = 1, projectId = ''p'', queueId = ''q'', objectId = ''a'',
       objectType = TRACE, status = COMPLETED, editStartTime = None,
       editStartByUserId = None, annotatorUserId = Some ''u1'', completedAt = Some 20,
       createdAt = 5\<rparr>,
       \<lparr>item_id = 2, projectId = ''p'', queueId = ''q'', objectId = ''b'',
       objectType = TRACE, status = PENDING, editStartTime = None,
       editStartByUserId = None, annotatorUserId = None, completedAt = None,
       createdAt = 7\<rparr>] @ [item])) \<and>
   (\<exists>added.
      [\<lparr>item_id = 1, projectId = ''p'', queueId = ''q'', objectId = ''a'',
       objectType = TRACE, status = COMPLETED, editStartTime = None,
       editStartByUserId = None, annotatorUserId = Some ''u1'', completedAt = Some 20,
       createdAt = 5\<rparr>,
       \<lparr>item_id = 2, projectId = ''p'', queueId = ''q'', objectId = ''b'',
       objectType = TRACE, status = PENDING, editStartTime = None,
       editStartByUserId = None, annotatorUserId = None, completedAt = None,
       createdAt = 7\<rparr>,
       \<lparr>item_id = 3, projectId = ''p'', queueId = ''q'', objectId = ''a'',
       objectType = TRACE, status = PENDING, editStartTime = None,
       editStartByUserId = None, annotatorUserId = None, completedAt = None,
       createdAt = 50\<rparr>] =
      [\<lparr>item_id = 1, projectId = ''p'', queueId = ''q'', objectId = ''a'',
       objectType = TRACE, status = COMPLETED, editStartTime = None,
       editStartByUserId = None, annotatorUserId = Some ''u1'', completedAt = Some 20,
       createdAt = 5\<rparr>,
       \<lparr>item_id = 2, projectId = ''p'', queueId = ''q'', objectId = ''b'',
       objectType = TRACE, status = PENDING, editStartTime = None,
       editStartByUserId = None, annotatorUserId = None, completedAt = None,
       createdAt = 7\<rparr>] @ added \<and>
      distinct (map queue_object_ref added) \<and>
      (\<forall>a \<in> set added. status a = PENDING \<and>
         (\<forall>r \<in> set [\<lparr>item_id = 1, projectId = ''p'', queueId = ''q'', objectId = ''a'',
       objectType = TRACE, status = COMPLETED, editStartTime = None,
       editStartByUserId = None, annotatorUserId = Some ''u1'', completedAt = Some 20,
       createdAt = 5\<rparr>,
                      \<lparr>item_id = 2, projectId = ''p'', queueId = ''q'', objectId = ''b'',
       objectType = TRACE, status = PENDING, editStartTime = None,
       editStartByUserId = None, annotatorUserId = None, completedAt = None,
       createdAt = 7\<rparr>].
            status r = PENDING \<longrightarrow> queue_object_ref a \<noteq> queue_object_ref r)))"
proof -
  let ?rows = "[\<lparr>item_id = 1, projectId = ''p'', queueId = ''q'', objectId = ''a'',
       objectType = TRACE, status = COMPLETED, editStartTime = None,
       editStartByUserId = None, annotatorUserId = Some ''u1'', completedAt = Some 20,
       createdAt = 5\<rparr>,
    \<lparr>item_id = 2, projectId = ''p'', queueId = ''q'', objectId = ''b'',
       objectType = TRACE, status = PENDING, editStartTime = None,
       editStartByUserId = None, annotatorUserId = None, completedAt = None,
       createdAt = 7\<rparr>]"
  let ?item = "\<lparr>item_id = 3, projectId = ''p'', queueId = ''q'', objectId = ''a'',
       objectType = TRACE, status = PENDING, editStartTime = None,
       editStartByUserId = None, annotatorUserId = None, completedAt = None,
       createdAt = 50\<rparr>"
  let ?rows' = "[\<lparr>item_id = 1, projectId = ''p'', queueId = ''q'', objectId = ''a'',
       objectType = TRACE, status = COMPLETED, editStartTime = None,
       editStartByUserId = None, annotatorUserId = Some ''u1'', completedAt = Some 20,
       createdAt = 5\<rparr>,
    \<lparr>item_id = 2, projectId = ''p'', queueId = ''q'', objectId = ''b'',
       objectType = TRACE, status = PENDING, editStartTime = None,
       editStartByUserId = None, annotatorUserId = None, completedAt = None,
       createdAt = 7\<rparr>,
    \<lparr>item_id = 3, projectId = ''p'', queueId = ''q'', objectId = ''a'',
       objectType = TRACE, status = PENDING, editStartTime = None,
       editStartByUserId = None, annotatorUserId = None, completedAt = None,
       createdAt = 50\<rparr>]"
  have h1: "queueItem_create pending_object_unique None ?rows ''p'' ''q'' ''a'' TRACE 50 =
      Inr (?item, ?rows')"
    by (simp add: queueItem_create_def prisma_create_def new_item_def fresh_id_def
        pending_object_unique_def queue_object_ref_def Let_def)
  have h2: "\<forall>r \<in> set ?rows. status r = PENDING \<longrightarrow> queue_object_ref r \<noteq> (''q'', ''a'', TRACE)"
    by (simp add: queue_object_ref_def)
  have h3: "queueItem_createMany pending_object_unique None ?rows
     ''p'' ''q'' [''a'', ''b'', ''a''] TRACE 50 =
   Inr (\<lparr>count = 1, totalRequested = 3, created = 3\<rparr>, ?rows')"
    by (simp add: queueItem_createMany_def MAX_ITEMS_def new_item_def fresh_id_def
        pending_object_unique_def queue_object_ref_def Let_def)
  note inst = enrollment_no_second_pending_item [of None ?rows "''p''" "''q''" "''a''" TRACE 50
      ?item ?rows' "[''a'', ''b'', ''a'']" "\<lparr>count = 1, totalRequested = 3, created = 3\<rparr>" ?rows']
  from inst [THEN conjunct1, THEN mp, OF h1]
  have a: "?rows' = ?rows @ [?item] \<and> queue_object_ref ?item = (''q'', ''a'', TRACE) \<and>
      status ?item = PENDING"
    by simp
  note b = inst [THEN conjunct2, THEN conjunct1, THEN mp, OF h2]
  note c = inst [THEN conjunct2, THEN conjunct2, THEN mp, OF h3]
  from a b c show ?thesis by (intro conjI) simp_all
qed

text \<open>
  Claim C7 as stated fails under invariant I3 for an existing item that is completed:
  \<^verbatim>\<open>create\<close> adds a second item with the same queue and object reference while the
  completed one is in the queue.
\<close>

theorem create_beside_completed_item:
  "queueItem_create pending_object_unique None
     [\<lparr>item_id = 1, projectId = ''p'', queueId = ''q'', objectId = ''a'',
       objectType = TRACE, status = COMPLETED, editStartTime = None,
       editStartByUserId = None, annotatorUserId = Some ''u1'', completedAt = Some 20,
       createdAt = 5\<rparr>]
     ''p'' ''q'' ''a'' TRACE 50 =
   Inr (\<lparr>item_id = 2, projectId = ''p'', queueId = ''q'', objectId = ''a'',
       objectType = TRACE, status = PENDING, editStartTime = None,
       editStartByUserId = None, annotatorUserId = None, completedAt = None,
       createdAt = 50\<rparr>,
     [\<lparr>item_id = 1, projectId = ''p'', queueId = ''q'', objectId = ''a'',
       objectType = TRACE, status = COMPLETED, editStartTime = None,
       editStartByUserId = None, annotatorUserId = Some ''u1'', completedAt = Some 20,
       createdAt = 5\<rparr>,
      \<lparr>item_id = 2, projectId = ''p'', queueId = ''q'', objectId = ''a'',
       objectType = TRACE, status = PENDING, editStartTime = None,
       editStartByUserId = None, annotatorUserId = None, completedAt = None,
       createdAt = 50\<rparr>]) \<and>
   queue_object_ref \<lparr>item_id = 1, projectId = ''p'', queueId = ''q'', objectId = ''a'',
       objectType = TRACE, status = COMPLETED, editStartTime = None,
       editStartByUserId = None, annotatorUserId = Some ''u1'', completedAt = Some 20,
       createdAt = 5\<rparr> =
   queue_object_ref \<lparr>item_id = 2, projectId = ''p'', queueId = ''q'', objectId = ''a'',
       objectType = TRACE, status = PENDING, editStartTime = None,
       editStartByUserId = None, annotatorUserId = None, completedAt = None,
       createdAt = 50\<rparr>"
  by (simp add: queueItem_create_def prisma_create_def new_item_def fresh_id_def
        pending_object_unique_def queue_object_ref_def Let_def)

subsection \<open>Deletion\<close>

text \<open>
  With access granted, \<^verbatim>\<open>delete\<close> fails exactly when the project has no item for the
  object, and otherwise removes the first item found for it, whatever its queue.
\<close>

lemma find_unique_key:
  "distinct (map f xs) \<Longrightarrow> x \<in> set xs \<Longrightarrow> P x \<Longrightarrow> (\<And>y. P y \<Longrightarrow> f y = f x) \<Longrightarrow>
   find P xs = Some x"
proof (induction xs)
  case Nil
  then show ?case by simp
next
  case (Cons y ys)
  show ?case
  proof (cases "P y")
    case True
    with Cons.prems(4) have "f y = f x" by simp
    with Cons.prems(1,2) have "y = x" by (auto simp: image_iff)
    with True show ?thesis by simp
  next
    case False
    with Cons.prems(2,3) have "x \<in> set ys" by auto
    moreover from Cons.prems(1) have "distinct (map f ys)" by simp
    ultimately have "find P ys = Some x"
      using Cons.prems(3,4) by (intro Cons.IH)
    with False show ?thesis by simp
  qed
qed

lemma delete_granted:
  assumes "distinct (map item_id rows)"
  shows "queueItem_delete None rows p oid oty =
     (case find (\<lambda>r. objectId r = oid \<and> objectType r = oty \<and> projectId r = p) rows of
        None \<Rightarrow> Inl (TRPCError ''INTERNAL_SERVER_ERROR'' ''Creating annotation queue failed.'')
      | Some item \<Rightarrow> Inr (item, filter (\<lambda>r. item_id r \<noteq> item_id item) rows))"
proof (cases "find (\<lambda>r. objectId r = oid \<and> objectType r = oty \<and> projectId r = p) rows")
  case None
  then show ?thesis by (simp add: queueItem_delete_def prisma_findFirst_def)
next
  case (Some item)
  then have it: "item \<in> set rows" "projectId item = p"
    by (auto simp: find_Some_iff)
  have f: "find (\<lambda>r. item_id r = item_id item \<and> projectId r = p) rows = Some item"
    using assms it by (intro find_unique_key [where f = item_id]) simp_all
  have "\<forall>r \<in> set rows. item_id r = item_id item \<longrightarrow> r = item"
    using assms it(1) by (auto simp: distinct_map inj_on_def)
  then have flt: "filter (\<lambda>r. \<not> (item_id r = item_id item \<and> projectId r = p)) rows =
      filter (\<lambda>r. item_id r \<noteq> item_id item) rows"
    using it(2) by (intro filter_cong) auto
  have del: "prisma_delete (item_id item) p rows =
      Inr (item, filter (\<lambda>r. item_id r \<noteq> item_id item) rows)"
    unfolding prisma_delete_def f flt by simp
  have fnd: "prisma_findFirst (\<lambda>r. objectId r = oid \<and> objectType r = oty \<and> projectId r = p) rows
      = Some item"
    unfolding prisma_findFirst_def by (rule Some)
  show ?thesis
    unfolding queueItem_delete_def by (simp add: fnd del Some)
qed

text \<open>
  Claim C10: \<^verbatim>\<open>delete\<close> looks the item up by project, object and object type only. When
  the project has no item for the object, the \<^verbatim>\<open>LangfuseNotFoundError\<close> it throws is
  caught by its own \<^verbatim>\<open>catch\<close> block, which replaces it: the caller receives an
  \<^verbatim>\<open>INTERNAL_SERVER_ERROR\<close>.
\<close>

theorem delete_missing_item_internal_error:
  "queueItem_delete None
     [\<lparr>item_id = 1, projectId = ''p'', queueId = ''q'', objectId = ''o'',
       objectType = TRACE, status = PENDING, editStartTime = None,
       editStartByUserId = None, annotatorUserId = None, completedAt = None,
       createdAt = 5\<rparr>]
     ''p'' ''other'' TRACE =
   Inl (TRPCError ''INTERNAL_SERVER_ERROR'' ''Creating annotation queue failed.'')"
  by (simp add: queueItem_delete_def prisma_findFirst_def)

end
